theory Spec2Isabelle
  imports Complex_Main "HOL-Library.Multiset"
begin

section \<open>Data model\<close>

text \<open>
  JavaScript numbers are modelled as exact reals: rounding, NaN and the infinities are
  outside the model. Every record that carries a \<open>time\<close> field extends \<open>Timed\<close>, so
  that the source's field name \<open>time\<close> serves beats, candidates and cuts alike.
  Two fields are renamed: \<open>MeasureInfo.startTime\<close> is \<open>measureStartTime\<close> (the name
  \<open>startTime\<close> is kept for the region bound) and \<open>CutMarker.id\<close> is \<open>cut_id\<close>. Local
  variables whose names are taken by a field or a library constant carry a prime
  (\<open>measures'\<close>, \<open>bpm'\<close>, \<open>drop'\<close>, \<open>count'\<close>, \<open>duration'\<close>).
\<close>

record Timed =
  time :: real

datatype BeatType = strong | medium | weak

record BeatMarker = Timed +
  intensity :: real
  type :: BeatType

record MeasureInfo =
  measureStartTime :: real
  bpm :: real
  confidence :: real

record DropMarker = BeatMarker +
  isDrop :: bool
  silenceDuration :: real

text \<open>
  A candidate is a \<open>BeatMarker & { priority, reason }\<close>. A candidate spread from a drop
  also carries \<open>isDrop\<close> and \<open>silenceDuration\<close>; nothing reads them afterwards.
\<close>

record Candidate = BeatMarker +
  priority :: real
  reason :: string

record CutMarker = Timed +
  cut_id :: string
  color :: string
  duration :: real
  trimSettings :: "(real \<times> real) option"

definition COLORS :: "string list" where
  "COLORS = [''#F97316'', ''#3B82F6'', ''#10B981'', ''#8B5CF6'', ''#EF4444'', ''#F59E0B'']"

section \<open>Duration optimizer\<close>

text \<open>
  \<open>Array.prototype.sort\<close> with the comparator \<open>a.time - b.time\<close> is a stable sort by
  \<open>time\<close>; \<open>sort_key\<close> is the stable insertion sort of the list library. \<open>nextCut\<close> is
  \<open>undefined\<close> exactly when \<open>index + 1\<close> is out of range.
\<close>

definition optimizeCutDurations :: "CutMarker list \<Rightarrow> real \<Rightarrow> CutMarker list" where
  "optimizeCutDurations cuts endTime =
     (let sortedCuts = sort_key time cuts in
      map (\<lambda>index.
          let cut = sortedCuts ! index;
              maxDuration = (if index + 1 < length sortedCuts
                             then time (sortedCuts ! (index + 1)) - time cut
                             else endTime - time cut)
          in cut\<lparr>duration := min (duration cut) (max 0.3 (maxDuration - 0.1))\<rparr>)
        [0..<length sortedCuts])"

section \<open>Measure detector\<close>

text \<open>
  The cluster loop of \<open>detectMeasures\<close>: \<open>prev\<close> is \<open>measureIntervals[i - 1]\<close>, the
  last argument the intervals from index \<open>i\<close> on.
\<close>

fun clusterLoop :: "real list list \<Rightarrow> real list \<Rightarrow> real \<Rightarrow> real list \<Rightarrow> real list list \<times> real list" where
  "clusterLoop clusters currentCluster prev [] = (clusters, currentCluster)"
| "clusterLoop clusters currentCluster prev (x # xs) =
     (let diff = x - prev in
      if diff < 0.3 then clusterLoop clusters (currentCluster @ [x]) x xs
      else clusterLoop (if length currentCluster \<ge> 1 then clusters @ [currentCluster] else clusters)
             [x] x xs)"

text \<open>
  The grid walk over the strong beats. The loop state is the pair of the source's two
  variables \<open>measures\<close> and \<open>expectedNextMeasure\<close>.
\<close>

fun measureWalk :: "real \<Rightarrow> real \<Rightarrow> MeasureInfo list \<times> real \<Rightarrow> BeatMarker list \<Rightarrow> MeasureInfo list \<times> real" where
  "measureWalk averageMeasureDuration bpm' (measures', expectedNextMeasure) [] =
     (measures', expectedNextMeasure)"
| "measureWalk averageMeasureDuration bpm' (measures', expectedNextMeasure) (beat # rest) =
     (let timeDiff = \<bar>time beat - expectedNextMeasure\<bar> in
      if timeDiff < averageMeasureDuration * 0.3
      then measureWalk averageMeasureDuration bpm'
             (measures' @ [\<lparr>measureStartTime = time beat, bpm = bpm',
                           confidence = max 0.1 (1 - (timeDiff / averageMeasureDuration))\<rparr>],
              time beat + averageMeasureDuration) rest
      else measureWalk averageMeasureDuration bpm' (measures', expectedNextMeasure) rest)"

text \<open>
  \<open>allBeats\<close> and \<open>allIntervals\<close> are computed by the source and never read; they are
  left out. Past the length checks \<open>measureIntervals\<close> and \<open>strongBeats\<close> are non-empty,
  so the \<open>[]\<close> case below is never taken.
\<close>

definition detectMeasures :: "BeatMarker list \<Rightarrow> MeasureInfo list" where
  "detectMeasures beatMarkers =
     (if length beatMarkers < 8 then [] else
      let strongBeats = filter (\<lambda>beat. type beat = strong) beatMarkers in
      if length strongBeats < 3 then [] else
      let measureIntervals =
            filter (\<lambda>interval. interval > 0.8 \<and> interval < 6)
              (map (\<lambda>i. time (strongBeats ! i) - time (strongBeats ! (i - 1)))
                 [1..<length strongBeats]) in
      if length measureIntervals < 2 then [] else
      case sort measureIntervals of [] \<Rightarrow> [] | first # others \<Rightarrow>
      let (clusters0, currentCluster) = clusterLoop [] [first] first others;
          clusters = (if length currentCluster \<ge> 1 then clusters0 @ [currentCluster] else clusters0);
          dominantCluster =
            foldl (\<lambda>largest current. if length current > length largest then current else largest)
              [] clusters in
      if length dominantCluster < 2 then [] else
      let averageMeasureDuration =
            foldl (\<lambda>sum val. sum + val) 0 dominantCluster / real (length dominantCluster);
          bpm' = 60 / (averageMeasureDuration / 4);
          measures' = fst (measureWalk averageMeasureDuration bpm'
                            ([], time (strongBeats ! 0)) strongBeats)
      in filter (\<lambda>m. confidence m > 0.4) measures')"

section \<open>Drop detector\<close>

definition detectDrops :: "BeatMarker list \<Rightarrow> DropMarker list" where
  "detectDrops beatMarkers =
     (let minSilenceDuration = 1.2;
          strongBeats = filter (\<lambda>beat. type beat = strong) beatMarkers in
      concat (map (\<lambda>i.
          let currentBeat = strongBeats ! i;
              previousBeat = strongBeats ! (i - 1);
              silenceDuration' = time currentBeat - time previousBeat in
          if silenceDuration' \<ge> minSilenceDuration \<and> intensity currentBeat > 0.2
          then [\<lparr>time = time currentBeat, intensity = intensity currentBeat,
                  type = type currentBeat, isDrop = True, silenceDuration = silenceDuration'\<rparr>]
          else [])
        [1..<length strongBeats]))"

section \<open>Candidate builder\<close>

text \<open>Each \<open>forEach\<close> that pushes onto \<open>candidates\<close> is a left fold of its body.\<close>

definition addDropCandidate :: "real \<Rightarrow> real \<Rightarrow> Candidate list \<Rightarrow> DropMarker \<Rightarrow> Candidate list" where
  "addDropCandidate startTime endTime candidates drop' =
     (if time drop' > startTime \<and> time drop' < endTime
      then candidates @ [\<lparr>time = max (startTime + 0.05) (time drop' - 0.05),
                           intensity = intensity drop', type = type drop',
                           priority = 100, reason = ''drop''\<rparr>]
      else candidates)"

definition addMeasureStart :: "real \<Rightarrow> BeatMarker list \<Rightarrow> Candidate list \<Rightarrow> MeasureInfo \<Rightarrow> Candidate list" where
  "addMeasureStart startTime availableBeats candidates measure' =
     (case find (\<lambda>beat. \<bar>time beat - measureStartTime measure'\<bar> < 0.2) availableBeats of
        None \<Rightarrow> candidates
      | Some nearestBeat \<Rightarrow>
          if \<not> list_ex (\<lambda>c. \<bar>time c - time nearestBeat\<bar> < 0.1) candidates
          then candidates @ [\<lparr>time = max (startTime + 0.05) (time nearestBeat - 0.03),
                               intensity = intensity nearestBeat, type = type nearestBeat,
                               priority = 80 + (confidence measure' * 20),
                               reason = ''measure_start''\<rparr>]
          else candidates)"

definition addMeasureMid :: "real \<Rightarrow> real \<Rightarrow> BeatMarker list \<Rightarrow> Candidate list \<Rightarrow> MeasureInfo \<Rightarrow> Candidate list" where
  "addMeasureMid startTime avgMeasureDuration availableBeats candidates measure' =
     (let midMeasureTime = measureStartTime measure' + (avgMeasureDuration / 2) in
      case find (\<lambda>beat. \<bar>time beat - midMeasureTime\<bar> < avgMeasureDuration * 0.3 \<and>
                         type beat = strong) availableBeats of
        None \<Rightarrow> candidates
      | Some nearestBeat \<Rightarrow>
          if \<not> list_ex (\<lambda>c. \<bar>time c - time nearestBeat\<bar> < 0.1) candidates
          then candidates @ [\<lparr>time = max (startTime + 0.05) (time nearestBeat - 0.03),
                               intensity = intensity nearestBeat, type = type nearestBeat,
                               priority = 60 + (intensity nearestBeat * 20),
                               reason = ''measure_mid''\<rparr>]
          else candidates)"

definition addStrongBeat :: "real \<Rightarrow> Candidate list \<Rightarrow> BeatMarker \<Rightarrow> Candidate list" where
  "addStrongBeat startTime candidates beat =
     (if \<not> list_ex (\<lambda>c. \<bar>time c - time beat\<bar> < 0.1) candidates
      then candidates @ [\<lparr>time = max (startTime + 0.05) (time beat - 0.02),
                           intensity = intensity beat, type = type beat,
                           priority = 40 + (intensity beat * 20), reason = ''strong_beat''\<rparr>]
      else candidates)"

text \<open>
  The four rules in their fixed order, then the stable sort by descending priority
  (\<open>candidates.sort((a, b) => b.priority - a.priority)\<close>).
\<close>

definition buildCandidates :: "real \<Rightarrow> real \<Rightarrow> BeatMarker list \<Rightarrow> MeasureInfo list \<Rightarrow> DropMarker list \<Rightarrow> Candidate list" where
  "buildCandidates startTime endTime availableBeats measures' drops =
     (let activeDuration = endTime - startTime;
          candidates1 = foldl (addDropCandidate startTime endTime) [] drops;
          candidates2 = foldl (addMeasureStart startTime availableBeats) candidates1 measures';
          candidates3 =
            (if length measures' > 0 then
               let avgMeasureDuration =
                     (if length measures' > 1
                      then (measureStartTime (measures' ! (length measures' - 1))
                              - measureStartTime (measures' ! 0)) / real (length measures' - 1)
                      else activeDuration / real (max 1 (length measures')))
               in foldl (addMeasureMid startTime avgMeasureDuration availableBeats) candidates2 measures'
             else candidates2);
          candidates4 = foldl (addStrongBeat startTime) candidates3
                          (filter (\<lambda>beat. type beat = strong) availableBeats)
      in sort_key (\<lambda>c. - priority c) candidates4)"

section \<open>Cut selector\<close>

text \<open>
  \<open>crypto.randomUUID()\<close> is called once for every cut pushed and nowhere else, so the
  call that builds a cut is call number \<open>selectedCuts.length\<close> (the index \<open>i\<close> in the
  equidistant fallback). The generator is the parameter \<open>uuid\<close>, from call number to
  identifier.
\<close>

datatype error = TypeError

definition newCut :: "string \<Rightarrow> real \<Rightarrow> nat \<Rightarrow> CutMarker" where
  "newCut ident t colorIndex =
     \<lparr>time = t, cut_id = ident, color = COLORS ! (colorIndex mod length COLORS),
      duration = 1, trimSettings = None\<rparr>"

definition addForcedCut :: "(nat \<Rightarrow> string) \<Rightarrow> nat \<Rightarrow> CutMarker list \<Rightarrow> Candidate \<Rightarrow> CutMarker list" where
  "addForcedCut uuid cutsNeeded selectedCuts drop' =
     (if length selectedCuts < cutsNeeded
      then selectedCuts @ [newCut (uuid (length selectedCuts)) (time drop') (length selectedCuts)]
      else selectedCuts)"

fun selectCandidates :: "(nat \<Rightarrow> string) \<Rightarrow> nat \<Rightarrow> real \<Rightarrow> CutMarker list \<Rightarrow> Candidate list \<Rightarrow> CutMarker list" where
  "selectCandidates uuid cutsNeeded minCutInterval selectedCuts [] = selectedCuts"
| "selectCandidates uuid cutsNeeded minCutInterval selectedCuts (candidate # rest) =
     (if length selectedCuts \<ge> cutsNeeded then selectedCuts
      else if reason candidate = ''drop''
      then selectCandidates uuid cutsNeeded minCutInterval selectedCuts rest
      else
        let tooClose = list_ex (\<lambda>cut. \<bar>time cut - time candidate\<bar> < minCutInterval) selectedCuts in
        if \<not> tooClose
        then selectCandidates uuid cutsNeeded minCutInterval
               (selectedCuts @ [newCut (uuid (length selectedCuts)) (time candidate) (length selectedCuts)])
               rest
        else selectCandidates uuid cutsNeeded minCutInterval selectedCuts rest)"

text \<open>
  \<open>Array.prototype.reduce\<close> without an initial value: on an empty array it throws a
  TypeError, otherwise it folds from the first element.
\<close>

fun reduce1 :: "('a \<Rightarrow> 'a \<Rightarrow> 'a) \<Rightarrow> 'a list \<Rightarrow> error + 'a" where
  "reduce1 f [] = Inl TypeError"
| "reduce1 f (x # xs) = Inr (foldl f x xs)"

text \<open>
  One round of the backfill loop. What \<open>reduce\<close> returns is an element of the array, an
  object, hence truthy: the \<open>else\<close> branch of \<open>if (nearestBeat)\<close>, which would push a
  cut at \<open>idealTime\<close>, is never taken and has no counterpart here.
\<close>

definition backfillStep :: "(nat \<Rightarrow> string) \<Rightarrow> real \<Rightarrow> real \<Rightarrow> nat \<Rightarrow> real \<Rightarrow> BeatMarker list \<Rightarrow> CutMarker list \<Rightarrow> error + CutMarker list" where
  "backfillStep uuid startTime activeDuration cutsNeeded minCutInterval availableBeats selectedCuts =
     (let missingIndex = length selectedCuts;
          idealTime = startTime + (real (missingIndex + 1) * activeDuration / real (cutsNeeded + 1))
      in case reduce1 (\<lambda>nearest current.
                 let currentDistance = \<bar>time current - idealTime\<bar>;
                     nearestDistance = \<bar>time nearest - idealTime\<bar>
                 in if currentDistance < nearestDistance then current else nearest)
              (filter (\<lambda>beat. \<not> list_ex (\<lambda>cut. \<bar>time cut - time beat\<bar> < minCutInterval) selectedCuts)
                 availableBeats) of
           Inl e \<Rightarrow> Inl e
         | Inr nearestBeat \<Rightarrow>
             Inr (selectedCuts @ [newCut (uuid (length selectedCuts))
                                    (max (startTime + 0.05) (time nearestBeat - 0.02)) missingIndex]))"

function backfill :: "(nat \<Rightarrow> string) \<Rightarrow> real \<Rightarrow> real \<Rightarrow> nat \<Rightarrow> real \<Rightarrow> BeatMarker list \<Rightarrow> CutMarker list \<Rightarrow> error + CutMarker list" where
  "backfill uuid startTime activeDuration cutsNeeded minCutInterval availableBeats selectedCuts =
     (if length selectedCuts < cutsNeeded
      then case backfillStep uuid startTime activeDuration cutsNeeded minCutInterval
                  availableBeats selectedCuts of
             Inl e \<Rightarrow> Inl e
           | Inr selectedCuts' \<Rightarrow>
               backfill uuid startTime activeDuration cutsNeeded minCutInterval
                 availableBeats selectedCuts'
      else Inr selectedCuts)"
  by pat_completeness auto
termination
  by (relation "measure (\<lambda>(uuid, startTime, activeDuration, cutsNeeded, minCutInterval,
                            availableBeats, selectedCuts). cutsNeeded - length selectedCuts)")
     (auto simp: backfillStep_def Let_def split: sum.splits)

declare backfill.simps [simp del]

section \<open>Equidistant fallback\<close>

definition generateEquidistantCuts :: "(nat \<Rightarrow> string) \<Rightarrow> real \<Rightarrow> real \<Rightarrow> nat \<Rightarrow> CutMarker list" where
  "generateEquidistantCuts uuid startTime endTime count' =
     (let duration' = endTime - startTime;
          interval = duration' / real (count' + 1)
      in map (\<lambda>i. \<lparr>time = startTime + (interval * real (i + 1)), cut_id = uuid i,
                     color = COLORS ! (i mod length COLORS),
                     duration = min 1 (interval * 0.8), trimSettings = None\<rparr>)
           [0..<count'])"

section \<open>The engine\<close>

text \<open>
  \<open>planCount\<close> is an integer; past the first check \<open>planCount - 1\<close> is at least 1 and
  is kept as a natural number. The result is \<open>Inr\<close> of the returned array, or \<open>Inl\<close> of
  the exception that leaves the function. The defaults of the options object apply only
  to fields that are \<open>undefined\<close>, which the type \<open>RandomCutOptions\<close> excludes.
\<close>

definition generateRandomCuts :: "(nat \<Rightarrow> string) \<Rightarrow> real \<Rightarrow> real \<Rightarrow> int \<Rightarrow> BeatMarker list \<Rightarrow> real \<Rightarrow> bool \<Rightarrow> error + CutMarker list" where
  "generateRandomCuts uuid startTime endTime planCount beatMarkers minCutInterval prioritizeStrongBeats =
     (if planCount < 2 then Inr [] else
      let cutsNeeded = nat (planCount - 1);
          activeDuration = endTime - startTime in
      if activeDuration < real cutsNeeded * minCutInterval then Inr [] else
      let availableBeats = filter (\<lambda>beat. time beat > startTime \<and> time beat < endTime) beatMarkers in
      if length availableBeats = 0
      then Inr (generateEquidistantCuts uuid startTime endTime cutsNeeded) else
      let measures' = detectMeasures availableBeats;
          drops = detectDrops availableBeats;
          candidates = buildCandidates startTime endTime availableBeats measures' drops;
          forcedCuts = filter (\<lambda>c. reason c = ''drop'') candidates;
          selectedCuts1 = foldl (addForcedCut uuid cutsNeeded) [] forcedCuts;
          selectedCuts2 = selectCandidates uuid cutsNeeded minCutInterval selectedCuts1 candidates
      in case backfill uuid startTime activeDuration cutsNeeded minCutInterval
                availableBeats selectedCuts2 of
           Inl e \<Rightarrow> Inl e
         | Inr selectedCuts \<Rightarrow> Inr (optimizeCutDurations (sort_key time selectedCuts) endTime))"

text \<open>
  All arithmetic above is exact. The code evaluates the duration guard in double
  arithmetic, where the subtraction \<open>endTime - startTime\<close> and the multiplication
  \<open>cutsNeeded * minCutInterval\<close> round. \<open>generateRandomCutsWith\<close> is the same function
  with these two operations as the parameters \<open>fsub\<close> and \<open>fmul\<close>;
  \<open>generateRandomCuts\<close> is its instance with the exact operations. Every other operation
  is exact here as there.
\<close>

definition generateRandomCutsWith :: "(real \<Rightarrow> real \<Rightarrow> real) \<Rightarrow> (real \<Rightarrow> real \<Rightarrow> real) \<Rightarrow> (nat \<Rightarrow> string) \<Rightarrow> real \<Rightarrow> real \<Rightarrow> int \<Rightarrow> BeatMarker list \<Rightarrow> real \<Rightarrow> bool \<Rightarrow> error + CutMarker list" where
  "generateRandomCutsWith fsub fmul uuid startTime endTime planCount beatMarkers minCutInterval prioritizeStrongBeats =
     (if planCount < 2 then Inr [] else
      let cutsNeeded = nat (planCount - 1);
          activeDuration = fsub endTime startTime in
      if activeDuration < fmul (real cutsNeeded) minCutInterval then Inr [] else
      let availableBeats = filter (\<lambda>beat. time beat > startTime \<and> time beat < endTime) beatMarkers in
      if length availableBeats = 0
      then Inr (generateEquidistantCuts uuid startTime endTime cutsNeeded) else
      let measures' = detectMeasures availableBeats;
          drops = detectDrops availableBeats;
          candidates = buildCandidates startTime endTime availableBeats measures' drops;
          forcedCuts = filter (\<lambda>c. reason c = ''drop'') candidates;
          selectedCuts1 = foldl (addForcedCut uuid cutsNeeded) [] forcedCuts;
          selectedCuts2 = selectCandidates uuid cutsNeeded minCutInterval selectedCuts1 candidates
      in case backfill uuid startTime activeDuration cutsNeeded minCutInterval
                availableBeats selectedCuts2 of
           Inl e \<Rightarrow> Inl e
         | Inr selectedCuts \<Rightarrow> Inr (optimizeCutDurations (sort_key time selectedCuts) endTime))"

section \<open>Double arithmetic\<close>

text \<open>
  ECMAScript numbers are IEEE 754 binary64 values, and an arithmetic operation returns
  the exact result rounded to the nearest representable value, ties to even. \<open>binary64\<close>
  is that rounding on the reals: 53 significant bits for normal numbers (binary exponent
  at least -1022), multiples of \<open>2^-1074\<close> below. Results beyond the largest finite
  double, which the code would see as \<open>Infinity\<close>, are outside the model.
  \<open>binaryExponent\<close> returns the \<open>e\<close> with \<open>2^e \<le> x < 2^(e + 1)\<close> for a positive \<open>x\<close>; its
  fuel of 1100 halvings or doublings covers every binary64 exponent.
\<close>

definition pow2 :: "int \<Rightarrow> real" where
  "pow2 e = (if 0 \<le> e then 2 ^ nat e else 1 / 2 ^ nat (- e))"

fun binaryExponent :: "nat \<Rightarrow> real \<Rightarrow> int" where
  "binaryExponent 0 x = 0"
| "binaryExponent (Suc fuel) x =
     (if x < 1 then binaryExponent fuel (x * 2) - 1
      else if 2 \<le> x then binaryExponent fuel (x / 2) + 1
      else 0)"

definition roundTiesToEven :: "real \<Rightarrow> int" where
  "roundTiesToEven x =
     (let f = \<lfloor>x\<rfloor> in
      if x - of_int f < 1 / 2 then f
      else if 1 / 2 < x - of_int f then f + 1
      else if even f then f else f + 1)"

definition binary64 :: "real \<Rightarrow> real" where
  "binary64 x =
     (if x = 0 then 0 else
      let e = max (binaryExponent 1100 \<bar>x\<bar>) (- 1022);
          ulp = pow2 (e - 52)
      in sgn x * (of_int (roundTiesToEven (\<bar>x\<bar> / ulp)) * ulp))"

definition fsub64 :: "real \<Rightarrow> real \<Rightarrow> real" where
  "fsub64 x y = binary64 (x - y)"

definition fmul64 :: "real \<Rightarrow> real \<Rightarrow> real" where
  "fmul64 x y = binary64 (x * y)"

section \<open>Named parts and sample inputs\<close>

text \<open>
  Names for three intermediate values of \<open>generateRandomCuts\<close>: the beats inside the
  active region, the sorted candidate list, and \<open>selectedCuts\<close> as it stands when the
  backfill loop is reached.
\<close>

definition availableBeatsOf :: "real \<Rightarrow> real \<Rightarrow> BeatMarker list \<Rightarrow> BeatMarker list" where
  "availableBeatsOf startTime endTime beatMarkers =
     filter (\<lambda>beat. time beat > startTime \<and> time beat < endTime) beatMarkers"

definition candidatesOf :: "real \<Rightarrow> real \<Rightarrow> BeatMarker list \<Rightarrow> Candidate list" where
  "candidatesOf startTime endTime availableBeats =
     buildCandidates startTime endTime availableBeats (detectMeasures availableBeats)
       (detectDrops availableBeats)"

definition selectedBeforeBackfill :: "(nat \<Rightarrow> string) \<Rightarrow> nat \<Rightarrow> real \<Rightarrow> Candidate list \<Rightarrow> CutMarker list" where
  "selectedBeforeBackfill uuid cutsNeeded minCutInterval candidates =
     selectCandidates uuid cutsNeeded minCutInterval
       (foldl (addForcedCut uuid cutsNeeded) [] (filter (\<lambda>c. reason c = ''drop'') candidates))
       candidates"

text \<open>
  A time obtained from a beat of the region by one of the lead offsets (50, 30 or 20 ms)
  and the clamp to \<open>startTime + 0.05\<close>.
\<close>

definition fromBeat :: "real \<Rightarrow> BeatMarker list \<Rightarrow> real \<Rightarrow> bool" where
  "fromBeat startTime availableBeats t \<longleftrightarrow>
     (\<exists>b \<in> set availableBeats. \<exists>lead \<in> {0.05, 0.03, 0.02}. t = max (startTime + 0.05) (time b - lead))"

text \<open>
  A generator for the concrete evaluations below: distinct call numbers give distinct
  identifiers.
\<close>

definition countingUUID :: "nat \<Rightarrow> string" where
  "countingUUID k = replicate (Suc k) CHR ''u''"

text \<open>
  Eight strong beats whose intervals alternate between 2 and 2.4 seconds: the dominant
  cluster is the four intervals of 2, so \<open>averageMeasureDuration = 2\<close> and \<open>bpm = 120\<close>.
\<close>

definition gridBeats :: "BeatMarker list" where
  "gridBeats = map (\<lambda>t. \<lparr>time = t, intensity = 0.5, type = strong\<rparr>)
                 [0, 2, 4.4, 6.4, 8.8, 10.8, 13.2, 15.2]"


section \<open>Properties of the duration optimizer\<close>

lemma insort_key_map_same:
  "(\<And>x. k (f x) = k x) \<Longrightarrow> insort_key k (f x) (map f xs) = map f (insort_key k x xs)"
  by (induction xs) auto

lemma sort_key_map_same:
  "(\<And>x. k (f x) = k x) \<Longrightarrow> sort_key k (map f xs) = map f (sort_key k xs)"
  by (induction xs) (auto simp: insort_key_map_same)

lemma optimizeCutDurations_length [simp]:
  "length (optimizeCutDurations cuts endTime) = length cuts"
  by (simp add: optimizeCutDurations_def Let_def)

lemma optimizeCutDurations_nth:
  assumes "i < length cuts"
  shows "optimizeCutDurations cuts endTime ! i =
           (sort_key time cuts ! i)\<lparr>duration :=
              min (duration (sort_key time cuts ! i))
                (max 0.3 ((if Suc i < length cuts
                           then time (sort_key time cuts ! Suc i) - time (sort_key time cuts ! i)
                           else endTime - time (sort_key time cuts ! i)) - 0.1))\<rparr>"
  using assms by (simp add: optimizeCutDurations_def Let_def)

lemma optimizeCutDurations_time [simp]:
  "map time (optimizeCutDurations cuts endTime) = map time (sort_key time cuts)"
  by (rule nth_equalityI) (simp_all add: optimizeCutDurations_nth)

lemma optimizeCutDurations_erase:
  "map (\<lambda>c. c\<lparr>duration := d\<rparr>) (optimizeCutDurations cuts endTime)
     = map (\<lambda>c. c\<lparr>duration := d\<rparr>) (sort_key time cuts)"
  by (rule nth_equalityI) (simp_all add: optimizeCutDurations_nth)

lemma sort_key_optimizeCutDurations:
  "sort_key time (optimizeCutDurations cuts endTime) = optimizeCutDurations cuts endTime"
  by (rule sort_key_id_if_sorted) simp

text \<open>
  C9. The duration optimizer is idempotent: a second application changes nothing. One
  application sorts the cuts by time and gives the cut at position \<open>i\<close> of the sorted
  list the duration \<open>min(originalDuration, max(0.3, gapToNextCut - 0.1))\<close>, where the gap
  runs to the next cut, or to \<open>endTime\<close> for the last cut.
\<close>

theorem optimizeCutDurations_idempotent:
  "optimizeCutDurations (optimizeCutDurations cuts endTime) endTime = optimizeCutDurations cuts endTime
   \<and> (\<forall>i < length cuts.
         let sortedCuts = sort_key time cuts;
             gapToNextCut = (if i + 1 < length cuts
                             then time (sortedCuts ! (i + 1)) - time (sortedCuts ! i)
                             else endTime - time (sortedCuts ! i))
         in optimizeCutDurations cuts endTime ! i
              = (sortedCuts ! i)\<lparr>duration := min (duration (sortedCuts ! i)) (max 0.3 (gapToNextCut - 0.1))\<rparr>)"
proof (intro conjI allI impI)
  let ?r = "optimizeCutDurations cuts endTime"
  show "optimizeCutDurations ?r endTime = ?r"
  proof (rule nth_equalityI)
    show "length (optimizeCutDurations ?r endTime) = length ?r" by simp
  next
    fix i assume "i < length (optimizeCutDurations ?r endTime)"
    then have i: "i < length cuts" by simp
    have "optimizeCutDurations ?r endTime ! i =
            (?r ! i)\<lparr>duration := min (duration (?r ! i))
                (max 0.3 ((if Suc i < length cuts then time (?r ! Suc i) - time (?r ! i)
                           else endTime - time (?r ! i)) - 0.1))\<rparr>"
      using i optimizeCutDurations_nth [of i ?r endTime]
      by (simp add: sort_key_optimizeCutDurations)
    also have "\<dots> = ?r ! i"
      using i by (simp add: optimizeCutDurations_nth)
    finally show "optimizeCutDurations ?r endTime ! i = ?r ! i" .
  qed
next
  fix i assume "i < length cuts"
  then show "let sortedCuts = sort_key time cuts;
             gapToNextCut = (if i + 1 < length cuts
                             then time (sortedCuts ! (i + 1)) - time (sortedCuts ! i)
                             else endTime - time (sortedCuts ! i))
         in optimizeCutDurations cuts endTime ! i
              = (sortedCuts ! i)\<lparr>duration := min (duration (sortedCuts ! i)) (max 0.3 (gapToNextCut - 0.1))\<rparr>"
    by (simp add: optimizeCutDurations_nth Let_def)
qed

text \<open>
  The theorem at two cuts given out of order, 0.3 seconds apart, in a region ending at 5:
  the first sorted cut is cut down to the floor of 0.3, the last keeps its duration 1.
\<close>

theorem optimizeCutDurations_idempotent_witness:
  "optimizeCutDurations (optimizeCutDurations [newCut ''b'' 3 1, newCut ''a'' 2.7 0] 5) 5
     = optimizeCutDurations [newCut ''b'' 3 1, newCut ''a'' 2.7 0] 5
   \<and> (0::nat) < length [newCut ''b'' 3 1, newCut ''a'' 2.7 0]
   \<and> optimizeCutDurations [newCut ''b'' 3 1, newCut ''a'' 2.7 0] 5 ! 0
        = (newCut ''a'' 2.7 0)\<lparr>duration := 0.3\<rparr>
   \<and> optimizeCutDurations [newCut ''b'' 3 1, newCut ''a'' 2.7 0] 5 ! 1 = newCut ''b'' 3 1"
  using optimizeCutDurations_idempotent [of "[newCut ''b'' 3 1, newCut ''a'' 2.7 0]" 5]
  by (simp add: newCut_def COLORS_def Let_def)

text \<open>
  C10. The duration optimizer returns as many cuts as it is given, ascending by time;
  with the durations erased, its output is the stable sort by time of its input, so every
  output cut is an input cut with its identifier, time, color and trim settings, and only
  the duration may differ.
\<close>

theorem optimizeCutDurations_frame:
  "length (optimizeCutDurations cuts endTime) = length cuts
   \<and> sorted (map time (optimizeCutDurations cuts endTime))
   \<and> map (\<lambda>c. c\<lparr>duration := 0\<rparr>) (optimizeCutDurations cuts endTime)
       = sort_key time (map (\<lambda>c. c\<lparr>duration := 0\<rparr>) cuts)
   \<and> mset (map (\<lambda>c. c\<lparr>duration := 0\<rparr>) (optimizeCutDurations cuts endTime))
       = mset (map (\<lambda>c. c\<lparr>duration := 0\<rparr>) cuts)"
proof -
  have e: "map (\<lambda>c. c\<lparr>duration := 0\<rparr>) (optimizeCutDurations cuts endTime)
       = sort_key time (map (\<lambda>c. c\<lparr>duration := 0\<rparr>) cuts)"
    by (simp add: optimizeCutDurations_erase sort_key_map_same)
  have "mset (sort_key time (map (\<lambda>c. c\<lparr>duration := 0\<rparr>) cuts))
          = mset (map (\<lambda>c. c\<lparr>duration := 0\<rparr>) cuts)"
    by simp
  with e show ?thesis by simp
qed

section \<open>The paths through the engine\<close>

lemma backfillStep_Inr:
  "backfillStep uuid startTime activeDuration cutsNeeded minCutInterval availableBeats selectedCuts
     = Inr selectedCuts' \<Longrightarrow> \<exists>c. selectedCuts' = selectedCuts @ [c]"
  by (auto simp: backfillStep_def Let_def split: sum.splits)

lemma backfill_length:
  "backfill uuid startTime activeDuration cutsNeeded minCutInterval availableBeats selectedCuts = Inr cuts
   \<Longrightarrow> length selectedCuts \<le> cutsNeeded \<Longrightarrow> length cuts = cutsNeeded"
proof (induction uuid startTime activeDuration cutsNeeded minCutInterval availableBeats selectedCuts
        rule: backfill.induct)
  case (1 uuid startTime activeDuration cutsNeeded minCutInterval availableBeats selectedCuts)
  show ?case
  proof (cases "length selectedCuts < cutsNeeded")
    case True
    with "1.prems"(1) obtain selectedCuts' where
      s: "backfillStep uuid startTime activeDuration cutsNeeded minCutInterval availableBeats selectedCuts
            = Inr selectedCuts'"
      and b: "backfill uuid startTime activeDuration cutsNeeded minCutInterval availableBeats selectedCuts'
            = Inr cuts"
      by (subst (asm) backfill.simps) (auto split: sum.splits)
    from backfillStep_Inr [OF s] True have "length selectedCuts' \<le> cutsNeeded" by auto
    with "1.IH" [OF True s b] show ?thesis .
  next
    case False
    with "1.prems" show ?thesis by (subst (asm) backfill.simps) auto
  qed
qed

lemma addForcedCut_length:
  "length selectedCuts \<le> cutsNeeded
   \<Longrightarrow> length (foldl (addForcedCut uuid cutsNeeded) selectedCuts forcedCuts) \<le> cutsNeeded"
  by (induction forcedCuts arbitrary: selectedCuts) (auto simp: addForcedCut_def)

lemma selectCandidates_length:
  "length selectedCuts \<le> cutsNeeded
   \<Longrightarrow> length (selectCandidates uuid cutsNeeded minCutInterval selectedCuts candidates) \<le> cutsNeeded"
  by (induction candidates arbitrary: selectedCuts) (auto simp: Let_def)

lemma generateEquidistantCuts_length [simp]:
  "length (generateEquidistantCuts uuid startTime endTime n) = n"
  by (simp add: generateEquidistantCuts_def Let_def)

lemma generateRandomCuts_beat_path:
  assumes "2 \<le> planCount"
    and "real_of_int (planCount - 1) * minCutInterval \<le> endTime - startTime"
    and "availableBeatsOf startTime endTime beatMarkers \<noteq> []"
  shows "generateRandomCuts uuid startTime endTime planCount beatMarkers minCutInterval p =
    (case backfill uuid startTime (endTime - startTime) (nat (planCount - 1)) minCutInterval
            (availableBeatsOf startTime endTime beatMarkers)
            (selectedBeforeBackfill uuid (nat (planCount - 1)) minCutInterval
               (candidatesOf startTime endTime (availableBeatsOf startTime endTime beatMarkers))) of
       Inl e \<Rightarrow> Inl e
     | Inr selectedCuts \<Rightarrow> Inr (optimizeCutDurations (sort_key time selectedCuts) endTime))"
proof -
  have r: "real (nat (planCount - 1)) = real_of_int (planCount - 1)"
    using assms(1) by simp
  show ?thesis
    using assms r
    by (simp add: generateRandomCuts_def Let_def availableBeatsOf_def candidatesOf_def
        selectedBeforeBackfill_def)
qed

lemma generateRandomCuts_fallback:
  assumes "2 \<le> planCount"
    and "real_of_int (planCount - 1) * minCutInterval \<le> endTime - startTime"
    and "availableBeatsOf startTime endTime beatMarkers = []"
  shows "generateRandomCuts uuid startTime endTime planCount beatMarkers minCutInterval p =
           Inr (generateEquidistantCuts uuid startTime endTime (nat (planCount - 1)))"
proof -
  have r: "real (nat (planCount - 1)) = real_of_int (planCount - 1)"
    using assms(1) by simp
  show ?thesis
    using assms r
    by (simp add: generateRandomCuts_def Let_def availableBeatsOf_def)
qed

lemma generateRandomCuts_declines:
  assumes "planCount < 2 \<or> endTime - startTime < real_of_int (planCount - 1) * minCutInterval"
  shows "generateRandomCuts uuid startTime endTime planCount beatMarkers minCutInterval p = Inr []"
proof (cases "planCount < 2")
  case True
  then show ?thesis by (simp add: generateRandomCuts_def)
next
  case False
  then have "real (nat (planCount - 1)) = real_of_int (planCount - 1)" by simp
  with False assms show ?thesis by (simp add: generateRandomCuts_def Let_def)
qed

lemma generateRandomCuts_not_declined:
  assumes "generateRandomCuts uuid startTime endTime planCount beatMarkers minCutInterval p \<noteq> Inr []"
  shows "2 \<le> planCount"
    and "real_of_int (planCount - 1) * minCutInterval \<le> endTime - startTime"
proof -
  have "\<not> (planCount < 2 \<or> endTime - startTime < real_of_int (planCount - 1) * minCutInterval)"
    using assms generateRandomCuts_declines by blast
  then show "2 \<le> planCount"
    and "real_of_int (planCount - 1) * minCutInterval \<le> endTime - startTime"
    by simp_all
qed

lemma selectedBeforeBackfill_length:
  "length (selectedBeforeBackfill uuid cutsNeeded minCutInterval candidates) \<le> cutsNeeded"
  unfolding selectedBeforeBackfill_def
  by (intro selectCandidates_length addForcedCut_length) simp

lemma generateRandomCuts_length:
  assumes "generateRandomCuts uuid startTime endTime planCount beatMarkers minCutInterval p = Inr cuts"
    and "2 \<le> planCount"
    and "real_of_int (planCount - 1) * minCutInterval \<le> endTime - startTime"
  shows "length cuts = nat (planCount - 1)"
proof (cases "availableBeatsOf startTime endTime beatMarkers = []")
  case True
  from assms(1) generateRandomCuts_fallback [OF assms(2,3) True] show ?thesis by auto
next
  case False
  from assms(1) generateRandomCuts_beat_path [OF assms(2,3) False]
  obtain selectedCuts where
    b: "backfill uuid startTime (endTime - startTime) (nat (planCount - 1)) minCutInterval
            (availableBeatsOf startTime endTime beatMarkers)
            (selectedBeforeBackfill uuid (nat (planCount - 1)) minCutInterval
               (candidatesOf startTime endTime (availableBeatsOf startTime endTime beatMarkers)))
          = Inr selectedCuts"
    and c: "cuts = optimizeCutDurations (sort_key time selectedCuts) endTime"
    by (auto split: sum.splits)
  from backfill_length [OF b selectedBeforeBackfill_length] c show ?thesis by simp
qed

lemma generateRandomCuts_exact:
  "generateRandomCuts = generateRandomCutsWith (-) (*)"
  by (intro ext) (simp add: generateRandomCuts_def generateRandomCutsWith_def)


lemma generateRandomCutsWith_length:
  assumes r: "generateRandomCutsWith fsub fmul uuid startTime endTime planCount beatMarkers minCutInterval p
                = Inr cuts"
    and pc: "2 \<le> planCount"
    and d: "\<not> fsub endTime startTime < fmul (real_of_int (planCount - 1)) minCutInterval"
  shows "length cuts = nat (planCount - 1)"
proof -
  let ?n = "nat (planCount - 1)"
  let ?av = "availableBeatsOf startTime endTime beatMarkers"
  have rn: "real ?n = real_of_int (planCount - 1)" using pc by simp
  show ?thesis
  proof (cases "?av = []")
    case True
    with r pc d rn have "cuts = generateEquidistantCuts uuid startTime endTime ?n"
      by (simp add: generateRandomCutsWith_def Let_def availableBeatsOf_def)
    then show ?thesis by simp
  next
    case False
    with r pc d rn obtain sel where
      b: "backfill uuid startTime (fsub endTime startTime) ?n minCutInterval ?av
            (selectedBeforeBackfill uuid ?n minCutInterval (candidatesOf startTime endTime ?av)) = Inr sel"
      and c: "cuts = optimizeCutDurations (sort_key time sel) endTime"
      by (auto simp: generateRandomCutsWith_def Let_def availableBeatsOf_def candidatesOf_def
          selectedBeforeBackfill_def split: sum.splits)
    from backfill_length [OF b selectedBeforeBackfill_length] c show ?thesis by simp
  qed
qed

text \<open>
  C8, as amended. The engine returns the empty list exactly when it declines, the
  duration test being the one the code evaluates: when \<open>planCount < 2\<close>, or when the
  computed difference \<open>endTime - startTime\<close> is less than the computed product
  \<open>(planCount - 1) * minCutInterval\<close>, whatever the subtraction and the multiplication
  return. On every other input the outcome is a non-empty list or an exception, never
  the empty list.
\<close>

theorem generateRandomCutsWith_empty_iff:
  "generateRandomCutsWith fsub fmul uuid startTime endTime planCount beatMarkers minCutInterval p = Inr []
   \<longleftrightarrow> planCount < 2
       \<or> fsub endTime startTime < fmul (real_of_int (planCount - 1)) minCutInterval"
proof
  assume e: "generateRandomCutsWith fsub fmul uuid startTime endTime planCount beatMarkers minCutInterval p
               = Inr []"
  show "planCount < 2 \<or> fsub endTime startTime < fmul (real_of_int (planCount - 1)) minCutInterval"
  proof (rule ccontr)
    assume "\<not> ?thesis"
    then have pc: "2 \<le> planCount"
      and d: "\<not> fsub endTime startTime < fmul (real_of_int (planCount - 1)) minCutInterval"
      by simp_all
    from generateRandomCutsWith_length [OF e pc d] pc show False by simp
  qed
next
  assume a: "planCount < 2 \<or> fsub endTime startTime < fmul (real_of_int (planCount - 1)) minCutInterval"
  show "generateRandomCutsWith fsub fmul uuid startTime endTime planCount beatMarkers minCutInterval p = Inr []"
  proof (cases "planCount < 2")
    case True
    then show ?thesis by (simp add: generateRandomCutsWith_def)
  next
    case False
    then have "real (nat (planCount - 1)) = real_of_int (planCount - 1)" by simp
    with False a show ?thesis by (simp add: generateRandomCutsWith_def Let_def)
  qed
qed

text \<open>
  The theorem in double arithmetic, with \<open>minCutInterval\<close> the double nearest to 0.8 and
  five plans: the region from 0 to 1 is declined, the region from 0 to 20 is not.
\<close>

theorem generateRandomCutsWith_empty_iff_witness:
  "generateRandomCutsWith fsub64 fmul64 countingUUID 0 1 5 [] (binary64 0.8) True = Inr []
   \<and> fsub64 1 0 < fmul64 (real_of_int (5 - 1)) (binary64 0.8)
   \<and> generateRandomCutsWith fsub64 fmul64 countingUUID 0 20 5 [] (binary64 0.8) True \<noteq> Inr []
   \<and> \<not> ((5::int) < 2 \<or> fsub64 20 0 < fmul64 (real_of_int (5 - 1)) (binary64 0.8))"
proof -
  have a: "fsub64 1 0 < fmul64 (real_of_int (5 - 1)) (binary64 0.8)" by code_simp
  have b: "\<not> ((5::int) < 2 \<or> fsub64 20 0 < fmul64 (real_of_int (5 - 1)) (binary64 0.8))" by code_simp
  from generateRandomCutsWith_empty_iff [of fsub64 fmul64 countingUUID 0 1 5 "[]" "binary64 0.8" True]
    generateRandomCutsWith_empty_iff [of fsub64 fmul64 countingUUID 0 20 5 "[]" "binary64 0.8" True]
    a b
  show ?thesis by blast
qed

text \<open>
  C8, as stated, fails in double arithmetic at the boundary of the guard. The double
  nearest to 0.8 is slightly above 0.8, so for six plans the duration 4 is less than
  \<open>5 \<times> minCutInterval\<close>; but that product rounds to 4, the guard \<open>4 < 4\<close> does not fire,
  and five cuts are returned. In the other direction \<open>2.4\<close> is not less than
  \<open>3 \<times> 0.8\<close>, yet on the doubles nearest to 2.4 and 0.8 the product rounds up to
  2.4000000000000004 and the engine declines.
\<close>

theorem exact_guard_counterexample:
  "binary64 0.8 = 3602879701896397 / 4503599627370496
   \<and> (2::int) \<le> 6
   \<and> (4 - 0 :: real) < real_of_int (6 - 1) * binary64 0.8
   \<and> fmul64 (real_of_int (6 - 1)) (binary64 0.8) = 4
   \<and> map_sum id length
        (generateRandomCutsWith fsub64 fmul64 countingUUID 0 4 6 [] (binary64 0.8) True) = Inr 5
   \<and> \<not> (2.4 - 0 :: real) < real_of_int (4 - 1) * 0.8
   \<and> generateRandomCutsWith fsub64 fmul64 countingUUID 0 (binary64 2.4) 4 [] (binary64 0.8) True
       = Inr []"
  by code_simp

text \<open>
  C1. The engine does not return on every input. With one weak beat at 5 in the region
  from 0 to 10 and three plans, the first backfill round uses the beat (cut at 4.98); in
  the second round the beat is within \<open>minCutInterval\<close> of that cut, the filtered array
  is empty, and \<open>reduce\<close> without an initial value throws.
\<close>

theorem generateRandomCuts_backfill_raises:
  "generateRandomCuts countingUUID 0 10 3 [\<lparr>time = 5, intensity = 0.5, type = weak\<rparr>] 0.8 True
     = Inl TypeError"
  by code_simp

text \<open>
  A backfill round throws exactly when every beat of the region is closer than
  \<open>minCutInterval\<close> to some cut selected so far.
\<close>

lemma backfillStep_raises_iff:
  "backfillStep uuid startTime activeDuration cutsNeeded minCutInterval availableBeats selectedCuts
     = Inl TypeError
   \<longleftrightarrow> (\<forall>beat \<in> set availableBeats.
          \<exists>cut \<in> set selectedCuts. \<bar>time cut - time beat\<bar> < minCutInterval)"
proof -
  have "filter (\<lambda>beat. \<not> list_ex (\<lambda>cut. \<bar>time cut - time beat\<bar> < minCutInterval) selectedCuts)
          availableBeats = []
        \<longleftrightarrow> (\<forall>beat \<in> set availableBeats.
              \<exists>cut \<in> set selectedCuts. \<bar>time cut - time beat\<bar> < minCutInterval)"
    by (simp add: filter_empty_conv list_ex_iff)
  then show ?thesis
    by (cases "filter (\<lambda>beat. \<not> list_ex (\<lambda>cut. \<bar>time cut - time beat\<bar> < minCutInterval) selectedCuts)
                 availableBeats")
       (simp_all add: backfillStep_def Let_def)
qed

text \<open>
  C2. With \<open>planCount = 4\<close> and an active duration of 10, at least \<open>3 \<times> 0.8\<close>, the
  engine returns no list of three cuts: the drop at 3 and the strong beat at 1 give two
  cuts, and the backfill round for the third throws.
\<close>

theorem generateRandomCuts_count_raises:
  "(2::int) \<le> 4 \<and> real_of_int (4 - 1) * 0.8 \<le> 10 - 0
   \<and> generateRandomCuts countingUUID 0 10 4
        [\<lparr>time = 1, intensity = 0.5, type = strong\<rparr>, \<lparr>time = 3, intensity = 0.5, type = strong\<rparr>]
        0.8 True = Inl TypeError"
  by code_simp

section \<open>The candidate list and the selection phases\<close>

lemma foldl_appends:
  assumes "\<And>acc x. x \<in> set xs \<Longrightarrow> \<exists>ext. f acc x = acc @ ext \<and> (\<forall>c \<in> set ext. P c)"
  shows "\<exists>ext. foldl f acc xs = acc @ ext \<and> (\<forall>c \<in> set ext. P c)"
  using assms
proof (induction xs arbitrary: acc)
  case Nil
  then show ?case by simp
next
  case (Cons x xs)
  from Cons.prems [of x acc] obtain e1 where e1: "f acc x = acc @ e1" "\<forall>c \<in> set e1. P c"
    by auto
  from Cons.IH [of "f acc x"] Cons.prems obtain e2 where
    e2: "foldl f (f acc x) xs = f acc x @ e2" "\<forall>c \<in> set e2. P c"
    by (metis list.set_intros(2))
  from e1 e2 have "foldl f acc (x # xs) = acc @ (e1 @ e2)" "\<forall>c \<in> set (e1 @ e2). P c"
    by auto
  then show ?case by blast
qed

lemma addDropCandidate_foldl:
  "foldl (addDropCandidate startTime endTime) acc drops =
     acc @ map (\<lambda>d. \<lparr>time = max (startTime + 0.05) (time d - 0.05), intensity = intensity d,
                       type = type d, priority = 100, reason = ''drop''\<rparr>)
             (filter (\<lambda>d. time d > startTime \<and> time d < endTime) drops)"
  by (induction drops arbitrary: acc) (auto simp: addDropCandidate_def)

lemma addMeasureStart_appends:
  "\<exists>ext. addMeasureStart startTime availableBeats acc m = acc @ ext
     \<and> (\<forall>c \<in> set ext. reason c \<noteq> ''drop'' \<and> fromBeat startTime availableBeats (time c))"
  by (auto simp: addMeasureStart_def fromBeat_def split: option.splits dest!: find_Some_iff [THEN iffD1])

lemma addMeasureMid_appends:
  "\<exists>ext. addMeasureMid startTime avg availableBeats acc m = acc @ ext
     \<and> (\<forall>c \<in> set ext. reason c \<noteq> ''drop'' \<and> fromBeat startTime availableBeats (time c))"
  by (auto simp: addMeasureMid_def fromBeat_def Let_def split: option.splits dest!: find_Some_iff [THEN iffD1])

lemma addStrongBeat_appends:
  "b \<in> set availableBeats \<Longrightarrow>
   \<exists>ext. addStrongBeat startTime acc b = acc @ ext
     \<and> (\<forall>c \<in> set ext. reason c \<noteq> ''drop'' \<and> fromBeat startTime availableBeats (time c))"
  by (auto simp: addStrongBeat_def fromBeat_def)

lemma detectDrops_times:
  "d \<in> set (detectDrops bs) \<Longrightarrow> \<exists>b \<in> set bs. time b = time d"
proof -
  assume "d \<in> set (detectDrops bs)"
  then obtain i where i: "1 \<le> i" "i < length (filter (\<lambda>beat. type beat = strong) bs)"
    and t: "time d = time (filter (\<lambda>beat. type beat = strong) bs ! i)"
    by (auto simp: detectDrops_def Let_def split: if_splits)
  from i have "filter (\<lambda>beat. type beat = strong) bs ! i \<in> set (filter (\<lambda>beat. type beat = strong) bs)"
    by (intro nth_mem)
  then have "filter (\<lambda>beat. type beat = strong) bs ! i \<in> set bs" by simp
  with t show ?thesis by metis
qed


lemma buildCandidates_structure:
  "\<exists>ext. buildCandidates startTime endTime availableBeats ms drops
           = sort_key (\<lambda>c. - priority c) (foldl (addDropCandidate startTime endTime) [] drops @ ext)
        \<and> (\<forall>c \<in> set ext. reason c \<noteq> ''drop'' \<and> fromBeat startTime availableBeats (time c))"
proof -
  let ?P = "\<lambda>c::Candidate. reason c \<noteq> ''drop'' \<and> fromBeat startTime availableBeats (time c)"
  let ?c1 = "foldl (addDropCandidate startTime endTime) [] drops"
  obtain e2 where e2: "foldl (addMeasureStart startTime availableBeats) ?c1 ms = ?c1 @ e2"
      "\<forall>c \<in> set e2. ?P c"
    using foldl_appends [of ms "addMeasureStart startTime availableBeats" ?P ?c1]
      addMeasureStart_appends by blast
  let ?c2 = "foldl (addMeasureStart startTime availableBeats) ?c1 ms"
  define c3 where "c3 = (if length ms > 0 then
               let avgMeasureDuration =
                     (if length ms > 1
                      then (measureStartTime (ms ! (length ms - 1))
                              - measureStartTime (ms ! 0)) / real (length ms - 1)
                      else (endTime - startTime) / real (max 1 (length ms)))
               in foldl (addMeasureMid startTime avgMeasureDuration availableBeats) ?c2 ms
             else ?c2)"
  have "\<exists>e3. c3 = ?c2 @ e3 \<and> (\<forall>c \<in> set e3. ?P c)"
  proof (cases "length ms > 0")
    case True
    then show ?thesis
      unfolding c3_def Let_def
      using foldl_appends [of ms "addMeasureMid startTime avg availableBeats" ?P ?c2 for avg]
        addMeasureMid_appends by simp
  next
    case False
    then show ?thesis by (simp add: c3_def)
  qed
  then obtain e3 where e3: "c3 = ?c2 @ e3" "\<forall>c \<in> set e3. ?P c" by blast
  obtain e4 where e4: "foldl (addStrongBeat startTime) c3
                          (filter (\<lambda>beat. type beat = strong) availableBeats) = c3 @ e4"
      "\<forall>c \<in> set e4. ?P c"
    using foldl_appends [of "filter (\<lambda>beat. type beat = strong) availableBeats"
        "addStrongBeat startTime" ?P c3]
      addStrongBeat_appends [of _ availableBeats startTime] by auto
  have "buildCandidates startTime endTime availableBeats ms drops
          = sort_key (\<lambda>c. - priority c)
              (foldl (addStrongBeat startTime) c3 (filter (\<lambda>beat. type beat = strong) availableBeats))"
    by (simp only: buildCandidates_def Let_def c3_def)
  then have "buildCandidates startTime endTime availableBeats ms drops
          = sort_key (\<lambda>c. - priority c) (?c1 @ (e2 @ e3 @ e4))"
    using e2(1) e3(1) e4(1) by simp
  moreover have "\<forall>c \<in> set (e2 @ e3 @ e4). ?P c"
    using e2(2) e3(2) e4(2) by auto
  ultimately show ?thesis by blast
qed

lemma forcedCuts_are_drop_candidates:
  "filter (\<lambda>c. reason c = ''drop'') (buildCandidates startTime endTime availableBeats ms drops)
     = foldl (addDropCandidate startTime endTime) [] drops"
proof -
  let ?c1 = "foldl (addDropCandidate startTime endTime) [] drops"
  obtain ext where b: "buildCandidates startTime endTime availableBeats ms drops
           = sort_key (\<lambda>c. - priority c) (?c1 @ ext)"
    and e: "\<forall>c \<in> set ext. reason c \<noteq> ''drop''"
    using buildCandidates_structure by blast
  have c1: "\<forall>c \<in> set ?c1. reason c = ''drop'' \<and> priority c = 100"
    by (auto simp: addDropCandidate_foldl)
  have "filter (\<lambda>c. reason c = ''drop'') (?c1 @ ext) = ?c1"
    using c1 e by (simp add: filter_id_conv filter_empty_conv)
  then have "filter (\<lambda>c. reason c = ''drop'') (buildCandidates startTime endTime availableBeats ms drops)
          = sort_key (\<lambda>c. - priority c) ?c1"
    by (simp add: b filter_sort)
  moreover have "map (\<lambda>c. - priority c) ?c1 = replicate (length ?c1) (- 100)"
    using c1 by (simp add: map_replicate_const [symmetric] cong: map_cong)
  then have "sorted (map (\<lambda>c. - priority c) ?c1)" by (simp add: sorted_replicate)
  then have "sort_key (\<lambda>c. - priority c) ?c1 = ?c1" by (rule sort_key_id_if_sorted)
  ultimately show ?thesis by simp
qed


lemma addForcedCut_times:
  "map time (foldl (addForcedCut uuid n) acc forced)
     = map time acc @ take (n - length acc) (map time forced)"
proof (induction forced arbitrary: acc)
  case Nil
  then show ?case by simp
next
  case (Cons c forced)
  show ?case
  proof (cases "length acc < n")
    case True
    then have "n - length acc = Suc (n - Suc (length acc))" by simp
    with True Cons.IH [of "acc @ [newCut (uuid (length acc)) (time c) (length acc)]"]
    show ?thesis by (simp add: addForcedCut_def newCut_def)
  next
    case False
    with Cons.IH [of acc] show ?thesis by (simp add: addForcedCut_def)
  qed
qed

lemma selectCandidates_rule:
  assumes "Inv selectedCuts"
    and "\<And>sel c. Inv sel \<Longrightarrow> c \<in> set candidates \<Longrightarrow> reason c \<noteq> ''drop''
           \<Longrightarrow> \<forall>x \<in> set sel. minCutInterval \<le> \<bar>time x - time c\<bar>
           \<Longrightarrow> Inv (sel @ [newCut (uuid (length sel)) (time c) (length sel)])"
  shows "Inv (selectCandidates uuid cutsNeeded minCutInterval selectedCuts candidates)"
  using assms
proof (induction candidates arbitrary: selectedCuts)
  case Nil
  then show ?case by simp
next
  case (Cons c rest)
  have step: "\<And>sel. Inv sel \<Longrightarrow> Inv (selectCandidates uuid cutsNeeded minCutInterval sel rest)"
    using Cons.IH Cons.prems(2) by (metis list.set_intros(2))
  show ?case
  proof (cases "\<not> length selectedCuts \<ge> cutsNeeded \<and> reason c \<noteq> ''drop''
                 \<and> \<not> list_ex (\<lambda>cut. \<bar>time cut - time c\<bar> < minCutInterval) selectedCuts")
    case True
    then have "\<forall>x \<in> set selectedCuts. minCutInterval \<le> \<bar>time x - time c\<bar>"
      by (auto simp: list_ex_iff not_less)
    with Cons.prems True
    have "Inv (selectedCuts @ [newCut (uuid (length selectedCuts)) (time c) (length selectedCuts)])"
      by simp
    from step [OF this] True show ?thesis by (simp add: Let_def)
  next
    case False
    then show ?thesis using step [OF Cons.prems(1)] Cons.prems(1) by (auto simp: Let_def)
  qed
qed

lemma foldl_pick:
  "(\<And>a b. f a b = a \<or> f a b = b) \<Longrightarrow> foldl f x xs \<in> set (x # xs)"
proof (induction xs arbitrary: x)
  case Nil
  then show ?case by simp
next
  case (Cons y ys)
  from Cons.IH [of "f x y"] Cons.prems have "foldl f (f x y) ys \<in> set (f x y # ys)" by blast
  moreover from Cons.prems have "f x y = x \<or> f x y = y" by blast
  ultimately show ?case by auto
qed

lemma backfillStep_Inr_beat:
  assumes "backfillStep uuid startTime activeDuration cutsNeeded minCutInterval availableBeats sel
             = Inr sel'"
  shows "\<exists>b \<in> set availableBeats.
           (\<forall>x \<in> set sel. minCutInterval \<le> \<bar>time x - time b\<bar>)
           \<and> sel' = sel @ [newCut (uuid (length sel)) (max (startTime + 0.05) (time b - 0.02)) (length sel)]"
proof -
  let ?ok = "filter (\<lambda>beat. \<not> list_ex (\<lambda>cut. \<bar>time cut - time beat\<bar> < minCutInterval) sel) availableBeats"
  let ?ideal = "startTime + (real (length sel + 1) * activeDuration / real (cutsNeeded + 1))"
  let ?f = "\<lambda>nearest current::BeatMarker.
             if \<bar>time current - ?ideal\<bar> < \<bar>time nearest - ?ideal\<bar> then current else nearest"
  from assms obtain first others where ok: "?ok = first # others"
    and s: "sel' = sel @ [newCut (uuid (length sel))
                     (max (startTime + 0.05) (time (foldl ?f first others) - 0.02)) (length sel)]"
    by (cases ?ok) (auto simp: backfillStep_def Let_def)
  have "foldl ?f first others \<in> set (first # others)"
    by (rule foldl_pick) simp
  with ok have "foldl ?f first others \<in> set ?ok" by simp
  then have "foldl ?f first others \<in> set availableBeats"
    and "\<forall>x \<in> set sel. minCutInterval \<le> \<bar>time x - time (foldl ?f first others)\<bar>"
    by (auto simp: list_ex_iff not_less)
  with s show ?thesis by blast
qed

lemma backfill_rule:
  assumes "backfill uuid startTime activeDuration cutsNeeded minCutInterval availableBeats selectedCuts
             = Inr cuts"
    and "Inv selectedCuts"
    and "\<And>sel b. Inv sel \<Longrightarrow> b \<in> set availableBeats
           \<Longrightarrow> \<forall>x \<in> set sel. minCutInterval \<le> \<bar>time x - time b\<bar>
           \<Longrightarrow> Inv (sel @ [newCut (uuid (length sel)) (max (startTime + 0.05) (time b - 0.02)) (length sel)])"
  shows "Inv cuts"
  using assms
proof (induction uuid startTime activeDuration cutsNeeded minCutInterval availableBeats selectedCuts
        rule: backfill.induct)
  case (1 uuid startTime activeDuration cutsNeeded minCutInterval availableBeats selectedCuts)
  show ?case
  proof (cases "length selectedCuts < cutsNeeded")
    case True
    with "1.prems"(1) obtain sel' where
      s: "backfillStep uuid startTime activeDuration cutsNeeded minCutInterval availableBeats selectedCuts
            = Inr sel'"
      and b: "backfill uuid startTime activeDuration cutsNeeded minCutInterval availableBeats sel'
            = Inr cuts"
      by (subst (asm) backfill.simps) (auto split: sum.splits)
    from backfillStep_Inr_beat [OF s] "1.prems"(2,3) have "Inv sel'" by blast
    from "1.IH" [OF True s b this "1.prems"(3)] show ?thesis by blast
  next
    case False
    with "1.prems"(1,2) show ?thesis by (subst (asm) backfill.simps) auto
  qed
qed

section \<open>Bounds of the cut times\<close>

lemma time_newCut [simp]: "time (newCut ident t k) = t"
  by (simp add: newCut_def)

lemma availableBeatsOf_region:
  "b \<in> set (availableBeatsOf startTime endTime beatMarkers) \<Longrightarrow> startTime < time b \<and> time b < endTime"
  by (simp add: availableBeatsOf_def)

lemma fromBeat_bounds:
  assumes "fromBeat startTime availableBeats t"
    and "\<forall>b \<in> set availableBeats. startTime < time b \<and> time b < endTime"
    and "startTime + 0.05 < endTime"
  shows "startTime + 0.05 \<le> t \<and> t < endTime"
proof -
  from assms(1) obtain b lead where b: "b \<in> set availableBeats"
    and l0: "lead \<in> {0.05, 0.03, 0.02 :: real}"
    and t: "t = max (startTime + 0.05) (time b - lead)"
    unfolding fromBeat_def by blast
  from l0 have l: "0 < lead" by auto
  from b assms(2) have "time b < endTime" by blast
  with l t assms(3) show ?thesis by (simp add: max_def)
qed

lemma buildCandidates_bounds:
  assumes "\<forall>b \<in> set availableBeats. startTime < time b \<and> time b < endTime"
    and "startTime + 0.05 < endTime"
    and "c \<in> set (buildCandidates startTime endTime availableBeats ms drops)"
  shows "startTime + 0.05 \<le> time c \<and> time c < endTime"
proof -
  obtain ext where b: "buildCandidates startTime endTime availableBeats ms drops
           = sort_key (\<lambda>c. - priority c) (foldl (addDropCandidate startTime endTime) [] drops @ ext)"
    and e: "\<forall>c \<in> set ext. fromBeat startTime availableBeats (time c)"
    using buildCandidates_structure by blast
  from assms(3) b consider "c \<in> set (foldl (addDropCandidate startTime endTime) [] drops)" | "c \<in> set ext"
    by auto
  then show ?thesis
  proof cases
    case 1
    then show ?thesis using assms(2) by (auto simp: addDropCandidate_foldl max_def)
  next
    case 2
    with e fromBeat_bounds [OF _ assms(1,2)] show ?thesis by blast
  qed
qed

lemma selectedBeforeBackfill_rule:
  assumes "Inv (foldl (addForcedCut uuid cutsNeeded) [] (filter (\<lambda>c. reason c = ''drop'') candidates))"
    and "\<And>sel c. Inv sel \<Longrightarrow> c \<in> set candidates \<Longrightarrow> reason c \<noteq> ''drop''
           \<Longrightarrow> \<forall>x \<in> set sel. minCutInterval \<le> \<bar>time x - time c\<bar>
           \<Longrightarrow> Inv (sel @ [newCut (uuid (length sel)) (time c) (length sel)])"
  shows "Inv (selectedBeforeBackfill uuid cutsNeeded minCutInterval candidates)"
  unfolding selectedBeforeBackfill_def using assms by (rule selectCandidates_rule)

lemma forced_times_subset:
  "set (map time (foldl (addForcedCut uuid n) [] forced)) \<subseteq> set (map time forced)"
  using set_take_subset [of n "map time forced"] by (simp add: addForcedCut_times del: set_map)

lemma selected_bounds:
  assumes "backfill uuid startTime activeDuration cutsNeeded minCutInterval availableBeats
             (selectedBeforeBackfill uuid cutsNeeded minCutInterval
                (buildCandidates startTime endTime availableBeats ms drops)) = Inr sel"
    and av: "\<forall>b \<in> set availableBeats. startTime < time b \<and> time b < endTime"
    and se: "startTime + 0.05 < endTime"
  shows "\<forall>c \<in> set sel. startTime + 0.05 \<le> time c \<and> time c < endTime"
proof -
  let ?B = "\<lambda>t. startTime + 0.05 \<le> t \<and> t < endTime"
  let ?Inv = "\<lambda>sel::CutMarker list. \<forall>c \<in> set sel. ?B (time c)"
  let ?cands = "buildCandidates startTime endTime availableBeats ms drops"
  have cb: "\<And>c. c \<in> set ?cands \<Longrightarrow> ?B (time c)"
    using buildCandidates_bounds [OF av se] by blast
  have "\<forall>t \<in> set (map time (foldl (addForcedCut uuid cutsNeeded) [] (filter (\<lambda>c. reason c = ''drop'') ?cands))). ?B t"
    using forced_times_subset [of uuid cutsNeeded "filter (\<lambda>c. reason c = ''drop'') ?cands"] cb
    by auto
  then have "?Inv (foldl (addForcedCut uuid cutsNeeded) [] (filter (\<lambda>c. reason c = ''drop'') ?cands))"
    by simp
  then have "?Inv (selectedBeforeBackfill uuid cutsNeeded minCutInterval ?cands)"
    by (rule selectedBeforeBackfill_rule) (use cb in auto)
  with assms(1) show ?thesis
  proof (rule backfill_rule)
    fix sel b
    assume "?Inv sel" "b \<in> set availableBeats"
    moreover from this(2) av have "time b < endTime" by blast
    ultimately show "?Inv (sel @ [newCut (uuid (length sel)) (max (startTime + 0.05) (time b - 0.02)) (length sel)])"
      using se by (auto simp: max_def)
  qed
qed

lemma generateEquidistantCuts_nth:
  "i < n \<Longrightarrow> time (generateEquidistantCuts uuid startTime endTime n ! i)
                = startTime + (endTime - startTime) / real (n + 1) * real (i + 1)"
  by (simp add: generateEquidistantCuts_def Let_def)

lemma equidistant_bounds:
  assumes "1 \<le> n" and "real n * minCutInterval \<le> endTime - startTime" and "0.1 \<le> minCutInterval"
    and "c \<in> set (generateEquidistantCuts uuid startTime endTime n)"
  shows "startTime + 0.05 \<le> time c \<and> time c < endTime"
proof -
  from assms(4) obtain i where i: "i < n" and c: "c = generateEquidistantCuts uuid startTime endTime n ! i"
    by (auto simp: in_set_conv_nth)
  define I where "I = (endTime - startTime) / real (n + 1)"
  have dur: "I * real (n + 1) = endTime - startTime" by (simp add: I_def)
  have "real n * 0.1 \<le> real n * minCutInterval"
    using assms(3) by (intro mult_left_mono) simp_all
  with assms(2) have "real n * 0.1 \<le> endTime - startTime" by linarith
  moreover have "0.05 * real (n + 1) \<le> real n * 0.1" using assms(1) by simp
  ultimately have "0.05 * real (n + 1) \<le> I * real (n + 1)" using dur by linarith
  then have I05: "0.05 \<le> I" by (simp del: of_nat_add of_nat_Suc)
  have t: "time c = startTime + I * real (i + 1)"
    using generateEquidistantCuts_nth [OF i] c by (simp add: I_def)
  have "I * 1 \<le> I * real (i + 1)" using I05 by (intro mult_left_mono) simp_all
  moreover have "I * real (i + 1) < I * real (n + 1)"
    using I05 i by (intro mult_strict_left_mono) simp_all
  ultimately show ?thesis using t dur I05 by linarith
qed

text \<open>
  C4, as amended. For every input with \<open>minCutInterval \<ge> 0.1\<close> on which the engine
  returns a non-empty list, every returned cut's time lies strictly between \<open>startTime\<close>
  and \<open>endTime\<close> and is at least \<open>startTime + 0.05\<close>; this covers the cuts of the
  equidistant fallback and of the backfill loop.
\<close>

theorem cut_times_within_region:
  assumes "generateRandomCuts uuid startTime endTime planCount beatMarkers minCutInterval p = Inr cuts"
    and "0.1 \<le> minCutInterval"
    and "c \<in> set cuts"
  shows "startTime < time c \<and> time c < endTime \<and> startTime + 0.05 \<le> time c"
proof -
  from assms(1,3) have "generateRandomCuts uuid startTime endTime planCount beatMarkers minCutInterval p \<noteq> Inr []"
    by auto
  then have pc: "2 \<le> planCount"
    and d: "real_of_int (planCount - 1) * minCutInterval \<le> endTime - startTime"
    by (rule generateRandomCuts_not_declined)+
  let ?n = "nat (planCount - 1)"
  let ?av = "availableBeatsOf startTime endTime beatMarkers"
  have n1: "1 \<le> ?n" using pc by simp
  have rn: "real ?n = real_of_int (planCount - 1)" using pc by simp
  have "real ?n * 0.1 \<le> real ?n * minCutInterval"
    using assms(2) by (intro mult_left_mono) simp_all
  moreover have "0.1 \<le> real ?n * 0.1" using n1 by simp
  moreover have d': "real ?n * minCutInterval \<le> endTime - startTime" using d rn by simp
  ultimately have "0.1 \<le> endTime - startTime" by linarith
  then have se: "startTime + 0.05 < endTime" by simp
  have "startTime + 0.05 \<le> time c \<and> time c < endTime"
  proof (cases "?av = []")
    case True
    from assms(1) generateRandomCuts_fallback [OF pc d True]
    have "cuts = generateEquidistantCuts uuid startTime endTime ?n" by simp
    with equidistant_bounds [OF n1 d' assms(2), of c uuid] assms(3)
    show ?thesis by simp
  next
    case False
    from assms(1) generateRandomCuts_beat_path [OF pc d False]
    obtain sel where
      b: "backfill uuid startTime (endTime - startTime) ?n minCutInterval ?av
            (selectedBeforeBackfill uuid ?n minCutInterval (candidatesOf startTime endTime ?av)) = Inr sel"
      and c: "cuts = optimizeCutDurations (sort_key time sel) endTime"
      by (auto split: sum.splits)
    have "\<forall>x \<in> set sel. startTime + 0.05 \<le> time x \<and> time x < endTime"
      using b se availableBeatsOf_region unfolding candidatesOf_def
      by (intro selected_bounds [where uuid = uuid]) blast+
    moreover have "set (map time cuts) = set (map time sel)"
      unfolding c by (simp del: set_map) simp
    ultimately have "\<forall>t \<in> set (map time cuts). startTime + 0.05 \<le> t \<and> t < endTime"
      by auto
    with assms(3) show ?thesis by simp
  qed
  then show ?thesis by simp
qed


text \<open>The theorem on one weak beat at 5 in the region from 0 to 10, two plans.\<close>

theorem cut_times_within_region_witness:
  "generateRandomCuts countingUUID 0 10 2 [\<lparr>time = 5, intensity = 0.5, type = weak\<rparr>] 0.8 True
     = Inr [(newCut ''u'' 4.98 0)\<lparr>duration := 1\<rparr>]
   \<and> (0.1::real) \<le> 0.8
   \<and> (0::real) < time (newCut ''u'' 4.98 0) \<and> time (newCut ''u'' 4.98 0) < 10
   \<and> (0::real) + 0.05 \<le> time (newCut ''u'' 4.98 0)"
proof -
  have h: "generateRandomCuts countingUUID 0 10 2 [\<lparr>time = 5, intensity = 0.5, type = weak\<rparr>] 0.8 True
     = Inr [(newCut ''u'' 4.98 0)\<lparr>duration := 1\<rparr>]"
    by code_simp
  have m: "(0.1::real) \<le> 0.8" by simp
  from cut_times_within_region [OF h m, of "(newCut ''u'' 4.98 0)\<lparr>duration := 1\<rparr>"] h m
  show ?thesis by simp
qed

text \<open>
  C4, as stated, fails for small \<open>minCutInterval\<close>. The equidistant fallback does not
  clamp: with no beats, the region from 0 to 0.2 and five plans, the first cut is at 0.04,
  before \<open>startTime + 0.05\<close>. The clamp can leave the region: with one beat at 0.02 in
  the region from 0 to 0.04, the cut is clamped to 0.05, past \<open>endTime\<close>.
\<close>

theorem bounds_counterexample:
  "map_sum id (map time) (generateRandomCuts countingUUID 0 0.2 5 [] 0.01 True)
     = Inr [0.04, 0.08, 0.12, 0.16]
   \<and> (0.04::real) < 0 + 0.05
   \<and> map_sum id (map time) (generateRandomCuts countingUUID 0 0.04 2
         [\<lparr>time = 0.02, intensity = 0.5, type = weak\<rparr>] 0.01 True) = Inr [0.05]
   \<and> \<not> (0.05::real) < 0.04"
  by code_simp

section \<open>Drop inclusion\<close>

text \<open>
  C5, as amended. On every input on which the engine does not decline and returns a list, every
  drop that \<open>detectDrops\<close> finds among the beats of the active region appears in the
  result at its post-offset time \<open>max(startTime + 0.05, dropTime - 0.05)\<close>, whenever
  \<open>cutsNeeded = planCount - 1\<close> is at least the number of detected drops: the drop
  candidates are exactly the forced cuts, all of them are pushed before any other
  candidate is looked at, and later phases only append.
\<close>

theorem drops_included:
  assumes r: "generateRandomCuts uuid startTime endTime planCount beatMarkers minCutInterval p = Inr cuts"
    and nd: "real_of_int (planCount - 1) * minCutInterval \<le> endTime - startTime"
    and k: "int (length (detectDrops (availableBeatsOf startTime endTime beatMarkers))) \<le> planCount - 1"
    and d: "d \<in> set (detectDrops (availableBeatsOf startTime endTime beatMarkers))"
  shows "\<exists>c \<in> set cuts. time c = max (startTime + 0.05) (time d - 0.05)"
proof -
  let ?av = "availableBeatsOf startTime endTime beatMarkers"
  let ?n = "nat (planCount - 1)"
  let ?T = "max (startTime + 0.05) (time d - 0.05)"
  let ?cands = "candidatesOf startTime endTime ?av"
  let ?c1 = "foldl (addDropCandidate startTime endTime) [] (detectDrops ?av)"
  from d have "0 < int (length (detectDrops ?av))" by (cases "detectDrops ?av") auto
  with k have pc: "2 \<le> planCount" by linarith
  from detectDrops_times [OF d] obtain b where b: "b \<in> set ?av" "time b = time d" by blast
  then have av: "?av \<noteq> []" by auto
  from b availableBeatsOf_region have reg: "startTime < time d \<and> time d < endTime" by metis
  from r generateRandomCuts_beat_path [OF pc nd av]
  obtain sel where
    bf: "backfill uuid startTime (endTime - startTime) ?n minCutInterval ?av
          (selectedBeforeBackfill uuid ?n minCutInterval ?cands) = Inr sel"
    and c: "cuts = optimizeCutDurations (sort_key time sel) endTime"
    by (auto split: sum.splits)
  have forced: "filter (\<lambda>c. reason c = ''drop'') ?cands = ?c1"
    unfolding candidatesOf_def by (rule forcedCuts_are_drop_candidates)
  have "length ?c1 \<le> length (detectDrops ?av)"
    by (simp add: addDropCandidate_foldl)
  with k have len: "length ?c1 \<le> ?n" by simp
  have "?T \<in> set (map time ?c1)"
    using d reg by (auto simp: addDropCandidate_foldl image_iff intro!: bexI [of _ d])
  moreover have "map time (foldl (addForcedCut uuid ?n) [] ?c1) = map time ?c1"
    using len by (simp add: addForcedCut_times)
  ultimately have "?T \<in> set (map time (foldl (addForcedCut uuid ?n) []
                      (filter (\<lambda>c. reason c = ''drop'') ?cands)))"
    by (simp only: forced)
  then have "?T \<in> set (map time (selectedBeforeBackfill uuid ?n minCutInterval ?cands))"
    by (rule selectedBeforeBackfill_rule) simp
  with bf have "?T \<in> set (map time sel)"
    by (rule backfill_rule) simp
  moreover have "set (map time cuts) = set (map time sel)"
    unfolding c by (simp del: set_map) simp
  ultimately have "?T \<in> set (map time cuts)" by simp
  then show ?thesis by auto
qed

text \<open>The theorem on strong beats at 1 and 3 (a drop at 3), three plans.\<close>

theorem drops_included_witness:
  "generateRandomCuts countingUUID 0 10 3
      [\<lparr>time = 1, intensity = 0.5, type = strong\<rparr>, \<lparr>time = 3, intensity = 0.5, type = strong\<rparr>] 0.8 True
     = Inr [(newCut ''uu'' 0.98 1)\<lparr>duration := 1\<rparr>, (newCut ''u'' 2.95 0)\<lparr>duration := 1\<rparr>]
   \<and> detectDrops (availableBeatsOf 0 10
         [\<lparr>time = 1, intensity = 0.5, type = strong\<rparr>, \<lparr>time = 3, intensity = 0.5, type = strong\<rparr>])
       = [\<lparr>time = 3, intensity = 0.5, type = strong, isDrop = True, silenceDuration = 2\<rparr>]
   \<and> (\<exists>c \<in> set [(newCut ''uu'' 0.98 1)\<lparr>duration := 1\<rparr>, (newCut ''u'' 2.95 0)\<lparr>duration := 1\<rparr>].
         time c = max (0 + 0.05) (3 - 0.05))"
proof -
  let ?beats = "[\<lparr>time = 1, intensity = 0.5, type = strong\<rparr>, \<lparr>time = 3, intensity = 0.5, type = strong\<rparr>]"
  let ?d = "\<lparr>time = 3, intensity = 0.5, type = strong, isDrop = True, silenceDuration = 2\<rparr>"
  have h: "generateRandomCuts countingUUID 0 10 3 ?beats 0.8 True
     = Inr [(newCut ''uu'' 0.98 1)\<lparr>duration := 1\<rparr>, (newCut ''u'' 2.95 0)\<lparr>duration := 1\<rparr>]"
    by code_simp
  have dd: "detectDrops (availableBeatsOf 0 10 ?beats) = [?d]"
    by code_simp
  have nd: "real_of_int (3 - 1) * 0.8 \<le> 10 - (0::real)" by simp
  have k: "int (length (detectDrops (availableBeatsOf 0 10 ?beats))) \<le> 3 - 1"
    unfolding dd by simp
  have d: "?d \<in> set (detectDrops (availableBeatsOf 0 10 ?beats))"
    unfolding dd by simp
  from drops_included [OF h nd k d] h dd show ?thesis by simp
qed

text \<open>
  C5, as stated, fails when the engine declines. With strong beats at 1 and 2.5 in the
  region from 0 to 3 there is a drop at 2.5, and \<open>cutsNeeded = 4\<close> is at least the
  number of drops; the active duration 3 is less than \<open>4 \<times> 0.8\<close>, so the result is
  empty and the drop is not in it.
\<close>

theorem drops_declined_counterexample:
  "detectDrops (availableBeatsOf 0 3
       [\<lparr>time = 1, intensity = 0.5, type = strong\<rparr>, \<lparr>time = 2.5, intensity = 0.5, type = strong\<rparr>])
     = [\<lparr>time = 2.5, intensity = 0.5, type = strong, isDrop = True, silenceDuration = 1.5\<rparr>]
   \<and> int (length [\<lparr>time = 2.5, intensity = 0.5, type = strong, isDrop = True, silenceDuration = 1.5\<rparr>])
        \<le> 5 - 1
   \<and> generateRandomCuts countingUUID 0 3 5
       [\<lparr>time = 1, intensity = 0.5, type = strong\<rparr>, \<lparr>time = 2.5, intensity = 0.5, type = strong\<rparr>]
       0.8 True = Inr []"
  by code_simp

section \<open>Ordering\<close>

lemma concat_map_if_singleton:
  "concat (map (\<lambda>i. if C i then [F i] else []) xs) = map F (filter C xs)"
  by (induction xs) auto

lemma detectDrops_gaps:
  assumes "sorted (map time bs)"
  shows "sorted_wrt (\<lambda>a b. time a + 1.2 \<le> time b) (detectDrops bs)"
proof -
  define sb where "sb = filter (\<lambda>beat. type beat = strong) bs"
  define C where "C = (\<lambda>i. time (sb ! i) - time (sb ! (i - 1)) \<ge> 1.2 \<and> intensity (sb ! i) > 0.2)"
  define F :: "nat \<Rightarrow> DropMarker" where "F = (\<lambda>i. \<lparr>time = time (sb ! i), intensity = intensity (sb ! i),
                  type = type (sb ! i), isDrop = True,
                  silenceDuration = time (sb ! i) - time (sb ! (i - 1))\<rparr>)"
  have dd: "detectDrops bs = map F (filter C [1..<length sb])"
    by (simp add: detectDrops_def Let_def sb_def C_def F_def concat_map_if_singleton)
  have ssb: "sorted (map time sb)"
    unfolding sb_def using assms by (rule sorted_filter)
  have "sorted_wrt (<) (filter C [1..<length sb])"
    by (intro sorted_wrt_filter) simp
  then have "sorted_wrt (\<lambda>i j. time (F i) + 1.2 \<le> time (F j)) (filter C [1..<length sb])"
  proof (rule sorted_wrt_mono_rel [rotated])
    fix i j
    assume i: "i \<in> set (filter C [1..<length sb])" and j: "j \<in> set (filter C [1..<length sb])"
      and ij: "i < j"
    from j have jl: "j < length sb" and cj: "time (sb ! j) - time (sb ! (j - 1)) \<ge> 1.2"
      by (simp_all add: C_def)
    from ij jl have "map time sb ! i \<le> map time sb ! (j - 1)"
      by (intro sorted_nth_mono [OF ssb]) simp_all
    with ij jl have "time (sb ! i) \<le> time (sb ! (j - 1))" by simp
    with cj show "time (F i) + 1.2 \<le> time (F j)" by (simp add: F_def)
  qed
  then show ?thesis by (simp add: dd sorted_wrt_map)
qed

lemma drop_candidate_times_distinct:
  assumes "sorted (map time bs)"
  shows "distinct (map time (foldl (addDropCandidate startTime endTime) [] (detectDrops bs)))"
proof -
  let ?in = "\<lambda>d::DropMarker. time d > startTime \<and> time d < endTime"
  let ?g = "\<lambda>d::DropMarker. max (startTime + 0.05) (time d - 0.05)"
  have m: "map time (foldl (addDropCandidate startTime endTime) [] (detectDrops bs))
             = map ?g (filter ?in (detectDrops bs))"
    by (simp add: addDropCandidate_foldl comp_def)
  have "sorted_wrt (\<lambda>a b. time a + 1.2 \<le> time b) (filter ?in (detectDrops bs))"
    using detectDrops_gaps [OF assms] by (rule sorted_wrt_filter)
  then have "sorted_wrt (\<lambda>a b. ?g a < ?g b) (filter ?in (detectDrops bs))"
  proof (rule sorted_wrt_mono_rel [rotated])
    fix a b :: DropMarker
    assume "a \<in> set (filter ?in (detectDrops bs))" and "time a + 1.2 \<le> time b"
    then have "startTime < time a" "time a + 1.2 \<le> time b" by simp_all
    then show "?g a < ?g b" by (simp add: max_def)
  qed
  then have "sorted_wrt (<) (map ?g (filter ?in (detectDrops bs)))"
    by (simp add: sorted_wrt_map)
  then show ?thesis unfolding m by (simp add: strict_sorted_iff)
qed

lemma distinct_times_sort_key:
  "distinct (map time (sort_key k xs)) = distinct (map time xs)"
  by (rule mset_eq_imp_distinct_iff) simp

lemma selected_distinct:
  assumes bf: "backfill uuid startTime activeDuration cutsNeeded minCutInterval availableBeats
             (selectedBeforeBackfill uuid cutsNeeded minCutInterval
                (buildCandidates startTime endTime availableBeats ms (detectDrops availableBeats))) = Inr sel"
    and av: "\<forall>b \<in> set availableBeats. startTime < time b \<and> time b < endTime"
    and se: "startTime + 0.05 < endTime"
    and so: "sorted (map time availableBeats)"
    and m: "0.05 < minCutInterval"
  shows "distinct (map time sel)"
proof -
  let ?Inv = "\<lambda>sel::CutMarker list. distinct (map time sel) \<and> (\<forall>c \<in> set sel. startTime + 0.05 \<le> time c)"
  let ?cands = "buildCandidates startTime endTime availableBeats ms (detectDrops availableBeats)"
  let ?forced = "filter (\<lambda>c. reason c = ''drop'') ?cands"
  have cb: "\<And>c. c \<in> set ?cands \<Longrightarrow> startTime + 0.05 \<le> time c"
    using buildCandidates_bounds [OF av se] by blast
  have f: "?forced = foldl (addDropCandidate startTime endTime) [] (detectDrops availableBeats)"
    by (rule forcedCuts_are_drop_candidates)
  have "distinct (map time ?forced)"
    unfolding f using so by (rule drop_candidate_times_distinct)
  then have "distinct (map time (foldl (addForcedCut uuid cutsNeeded) [] ?forced))"
    by (simp add: addForcedCut_times del: map_map)
  moreover have "\<forall>t \<in> set (map time (foldl (addForcedCut uuid cutsNeeded) [] ?forced)). startTime + 0.05 \<le> t"
    using forced_times_subset [of uuid cutsNeeded ?forced] cb by auto
  ultimately have "?Inv (foldl (addForcedCut uuid cutsNeeded) [] ?forced)" by simp
  then have "?Inv (selectedBeforeBackfill uuid cutsNeeded minCutInterval ?cands)"
  proof (rule selectedBeforeBackfill_rule)
    fix sel c
    assume inv: "?Inv sel" and c: "c \<in> set ?cands"
      and far: "\<forall>x \<in> set sel. minCutInterval \<le> \<bar>time x - time c\<bar>"
    have "time c \<notin> time ` set sel"
    proof
      assume "time c \<in> time ` set sel"
      then obtain x where "x \<in> set sel" "time x = time c" by auto
      with far m show False by fastforce
    qed
    with inv cb [OF c]
    show "?Inv (sel @ [newCut (uuid (length sel)) (time c) (length sel)])" by simp
  qed
  with bf have "?Inv sel"
  proof (rule backfill_rule)
    fix sel b
    assume inv: "?Inv sel" and b: "b \<in> set availableBeats"
      and far: "\<forall>x \<in> set sel. minCutInterval \<le> \<bar>time x - time b\<bar>"
    let ?t = "max (startTime + 0.05) (time b - 0.02)"
    from b av have sb: "startTime < time b" by blast
    have "?t \<notin> time ` set sel"
    proof
      assume "?t \<in> time ` set sel"
      then obtain x where x: "x \<in> set sel" and tx: "time x = ?t" by auto
      from x far m have d: "0.05 < \<bar>time x - time b\<bar>" by fastforce
      from tx d sb show False unfolding power2_eq_square by linarith
    qed
    with inv show "?Inv (sel @ [newCut (uuid (length sel)) ?t (length sel)])" by simp
  qed
  then show ?thesis by simp
qed


lemma equidistant_sorted:
  assumes "startTime \<le> endTime"
  shows "sorted (map time (generateEquidistantCuts uuid startTime endTime n))"
proof -
  define I where "I = (endTime - startTime) / real (n + 1)"
  have I0: "0 \<le> I" using assms by (simp add: I_def)
  have "map time (generateEquidistantCuts uuid startTime endTime n) ! i
          \<le> map time (generateEquidistantCuts uuid startTime endTime n) ! j"
    if "i \<le> j" "j < n" for i j
  proof -
    from that have "I * real (i + 1) \<le> I * real (j + 1)"
      using I0 by (intro mult_left_mono) simp_all
    with that show ?thesis by (simp add: generateEquidistantCuts_nth I_def)
  qed
  then show ?thesis by (simp add: sorted_iff_nth_mono)
qed

lemma equidistant_strictly_sorted:
  assumes "startTime < endTime"
  shows "sorted_wrt (<) (map time (generateEquidistantCuts uuid startTime endTime n))"
proof -
  define I where "I = (endTime - startTime) / real (n + 1)"
  have I0: "0 < I" using assms by (simp add: I_def)
  have "map time (generateEquidistantCuts uuid startTime endTime n) ! i
          < map time (generateEquidistantCuts uuid startTime endTime n) ! j"
    if "i < j" "j < n" for i j
  proof -
    from that have "I * real (i + 1) < I * real (j + 1)"
      using I0 by (intro mult_strict_left_mono) simp_all
    with that show ?thesis by (simp add: generateEquidistantCuts_nth I_def)
  qed
  then show ?thesis by (simp add: sorted_wrt_iff_nth_less)
qed

lemma sorted_availableBeatsOf:
  "sorted (map time beatMarkers) \<Longrightarrow> sorted (map time (availableBeatsOf startTime endTime beatMarkers))"
  unfolding availableBeatsOf_def by (rule sorted_filter)

text \<open>
  C6, as amended. Whenever \<open>startTime \<le> endTime\<close>, the returned cut list is sorted
  ascending by time. When moreover the beat markers are ascending by time and
  \<open>minCutInterval > 0.05\<close>, it is strictly ascending: no two returned cuts share a time.
\<close>

theorem returned_cuts_sorted:
  assumes r: "generateRandomCuts uuid startTime endTime planCount beatMarkers minCutInterval p = Inr cuts"
  shows "(startTime \<le> endTime \<longrightarrow> sorted (map time cuts))
       \<and> (sorted (map time beatMarkers) \<and> 0.05 < minCutInterval \<longrightarrow> sorted_wrt (<) (map time cuts))"
proof (cases "planCount < 2 \<or> endTime - startTime < real_of_int (planCount - 1) * minCutInterval")
  case True
  from generateRandomCuts_declines [OF True] r have "cuts = []" by simp
  then show ?thesis by simp
next
  case False
  then have pc: "2 \<le> planCount"
    and d: "real_of_int (planCount - 1) * minCutInterval \<le> endTime - startTime"
    by simp_all
  let ?n = "nat (planCount - 1)"
  let ?av = "availableBeatsOf startTime endTime beatMarkers"
  have se: "startTime + 0.05 < endTime" if m: "0.05 < minCutInterval"
  proof -
    have "1 * minCutInterval \<le> real_of_int (planCount - 1) * minCutInterval"
      using pc m by (intro mult_right_mono) simp_all
    with d m show ?thesis unfolding power2_eq_square by linarith
  qed
  show ?thesis
  proof (cases "?av = []")
    case True
    from r generateRandomCuts_fallback [OF pc d True]
    have c: "cuts = generateEquidistantCuts uuid startTime endTime ?n" by simp
    have "0.05 < minCutInterval \<Longrightarrow> startTime < endTime" using se by simp
    then show ?thesis
      unfolding c using equidistant_sorted equidistant_strictly_sorted by blast
  next
    case av: False
    from r generateRandomCuts_beat_path [OF pc d av]
    obtain sel where
      b: "backfill uuid startTime (endTime - startTime) ?n minCutInterval ?av
            (selectedBeforeBackfill uuid ?n minCutInterval (candidatesOf startTime endTime ?av)) = Inr sel"
      and c: "cuts = optimizeCutDurations (sort_key time sel) endTime"
      by (auto split: sum.splits)
    have t: "map time cuts = map time (sort_key time sel)"
      unfolding c by (simp add: sort_key_id_if_sorted)
    have s: "sorted (map time cuts)" unfolding t by simp
    have "distinct (map time cuts)" if so: "sorted (map time beatMarkers)" and m: "0.05 < minCutInterval"
    proof -
      have "distinct (map time sel)"
        using b availableBeatsOf_region se [OF m] sorted_availableBeatsOf [OF so] m
        unfolding candidatesOf_def
        by (intro selected_distinct [where uuid = uuid]) blast+
      then show ?thesis unfolding t by (simp only: distinct_times_sort_key)
    qed
    with s show ?thesis by (simp add: strict_sorted_iff)
  qed
qed

text \<open>The theorem on strong beats at 1 and 3, three plans, \<open>minCutInterval = 0.8\<close>.\<close>

theorem returned_cuts_sorted_witness:
  "generateRandomCuts countingUUID 0 10 3
      [\<lparr>time = 1, intensity = 0.5, type = strong\<rparr>, \<lparr>time = 3, intensity = 0.5, type = strong\<rparr>] 0.8 True
     = Inr [(newCut ''uu'' 0.98 1)\<lparr>duration := 1\<rparr>, (newCut ''u'' 2.95 0)\<lparr>duration := 1\<rparr>]
   \<and> (0::real) \<le> 10
   \<and> sorted (map time [\<lparr>time = 1, intensity = 0.5, type = strong\<rparr>, \<lparr>time = 3, intensity = 0.5, type = strong\<rparr>])
   \<and> (0.05::real) < 0.8
   \<and> sorted (map time [(newCut ''uu'' 0.98 1)\<lparr>duration := 1\<rparr>, (newCut ''u'' 2.95 0)\<lparr>duration := 1\<rparr>])
   \<and> sorted_wrt (<) (map time [(newCut ''uu'' 0.98 1)\<lparr>duration := 1\<rparr>, (newCut ''u'' 2.95 0)\<lparr>duration := 1\<rparr>])"
proof -
  have h: "generateRandomCuts countingUUID 0 10 3
      [\<lparr>time = 1, intensity = 0.5, type = strong\<rparr>, \<lparr>time = 3, intensity = 0.5, type = strong\<rparr>] 0.8 True
     = Inr [(newCut ''uu'' 0.98 1)\<lparr>duration := 1\<rparr>, (newCut ''u'' 2.95 0)\<lparr>duration := 1\<rparr>]"
    by code_simp
  from returned_cuts_sorted [OF h] h show ?thesis by simp
qed

text \<open>
  C6, as stated, fails for small \<open>minCutInterval\<close>. With one weak beat at 5 and
  \<open>minCutInterval = 0.01\<close>, the first backfill round places a cut at 4.98; the beat is
  0.02 from that cut, so it stays available, and the second round places a cut at 4.98
  again.
\<close>

theorem strictly_sorted_counterexample:
  "map_sum id (map time) (generateRandomCuts countingUUID 0 10 3
       [\<lparr>time = 5, intensity = 0.5, type = weak\<rparr>] 0.01 True) = Inr [4.98, 4.98]"
  by code_simp

section \<open>Spacing\<close>













section \<open>The measure grid\<close>

text \<open>
  C7, as amended. When a strong beat is accepted, the next expected downbeat is set to
  that beat's own time plus \<open>averageMeasureDuration\<close>: the grid resynchronizes to every
  accepted beat. For a walk started at expected position \<open>e\<close>, the expected position left
  by the walk is the last accepted beat's time plus the average (or \<open>e\<close> when nothing
  was accepted), and the \<open>k\<close>-th accepted beat was matched against the previous accepted
  beat's time plus the average (against \<open>e\<close> for the first), as its confidence records.
\<close>

theorem measureWalk_resynchronizes:
  "measureWalk avg bpm' (ms, e) beats = (ms', e') \<Longrightarrow>
     \<exists>new. ms' = ms @ new
        \<and> e' = (if new = [] then e else measureStartTime (last new) + avg)
        \<and> (\<forall>k < length new.
              confidence (new ! k) =
                max 0.1 (1 - \<bar>measureStartTime (new ! k)
                              - (if k = 0 then e else measureStartTime (new ! (k - 1)) + avg)\<bar> / avg))"
proof (induction beats arbitrary: ms e)
  case Nil
  then show ?case by simp
next
  case (Cons beat rest)
  show ?case
  proof (cases "\<bar>time beat - e\<bar> < avg * 0.3")
    case False
    with Cons.prems have "measureWalk avg bpm' (ms, e) rest = (ms', e')"
      by (simp add: Let_def)
    from Cons.IH [OF this] show ?thesis .
  next
    case True
    define m where "m = \<lparr>measureStartTime = time beat, bpm = bpm',
                           confidence = max 0.1 (1 - (\<bar>time beat - e\<bar> / avg))\<rparr>"
    from True Cons.prems have "measureWalk avg bpm' (ms @ [m], time beat + avg) rest = (ms', e')"
      by (simp add: Let_def m_def)
    from Cons.IH [OF this] obtain new where
      n1: "ms' = (ms @ [m]) @ new"
      and n2: "e' = (if new = [] then time beat + avg else measureStartTime (last new) + avg)"
      and n3: "\<forall>k < length new.
              confidence (new ! k) =
                max 0.1 (1 - \<bar>measureStartTime (new ! k)
                              - (if k = 0 then time beat + avg else measureStartTime (new ! (k - 1)) + avg)\<bar> / avg)"
      by blast
    have s: "measureStartTime m = time beat" by (simp add: m_def)
    have c: "confidence m = max 0.1 (1 - \<bar>measureStartTime m - e\<bar> / avg)" by (simp add: m_def)
    have "ms' = ms @ (m # new)" using n1 by simp
    moreover have "e' = (if m # new = [] then e else measureStartTime (last (m # new)) + avg)"
      using n2 s by simp
    moreover have "\<forall>k < length (m # new).
              confidence ((m # new) ! k) =
                max 0.1 (1 - \<bar>measureStartTime ((m # new) ! k)
                              - (if k = 0 then e else measureStartTime ((m # new) ! (k - 1)) + avg)\<bar> / avg)"
    proof (intro allI impI)
      fix k assume k: "k < length (m # new)"
      show "confidence ((m # new) ! k) =
                max 0.1 (1 - \<bar>measureStartTime ((m # new) ! k)
                              - (if k = 0 then e else measureStartTime ((m # new) ! (k - 1)) + avg)\<bar> / avg)"
      proof (cases k)
        case 0
        then show ?thesis using c by simp
      next
        case (Suc j)
        with k have j: "j < length new" by simp
        from n3 j have "confidence (new ! j) =
                max 0.1 (1 - \<bar>measureStartTime (new ! j)
                              - (if j = 0 then time beat + avg else measureStartTime (new ! (j - 1)) + avg)\<bar> / avg)"
          by blast
        then show ?thesis using Suc s by (cases j) simp_all
      qed
    qed
    ultimately show ?thesis by blast
  qed
qed


text \<open>The theorem on the first three beats of the grid above.\<close>

theorem measureWalk_resynchronizes_witness:
  "measureWalk 2 120 ([], 0) (take 3 gridBeats)
     = ([\<lparr>measureStartTime = 0, bpm = 120, confidence = 1\<rparr>,
         \<lparr>measureStartTime = 2, bpm = 120, confidence = 1\<rparr>,
         \<lparr>measureStartTime = 4.4, bpm = 120, confidence = 0.8\<rparr>], 6.4)
   \<and> (6.4::real) = 4.4 + 2
   \<and> (0.8::real) = max 0.1 (1 - \<bar>4.4 - (2 + 2)\<bar> / 2)"
proof -
  have h: "measureWalk 2 120 ([], 0) (take 3 gridBeats)
     = ([\<lparr>measureStartTime = 0, bpm = 120, confidence = 1\<rparr>,
         \<lparr>measureStartTime = 2, bpm = 120, confidence = 1\<rparr>,
         \<lparr>measureStartTime = 4.4, bpm = 120, confidence = 0.8\<rparr>], 6.4)"
    by code_simp
  from measureWalk_resynchronizes [OF h] show ?thesis using h by auto
qed

text \<open>
  C7, as stated, fails on the grid above. \<open>detectMeasures\<close> runs the walk with average 2
  from \<open>strongBeats[0].time = 0\<close>. After three acceptances (beats 0, 2 and 4.4) the
  expected position is \<open>4.4 + 2 = 6.4\<close>, not \<open>0 + 3 \<times> 2 = 6\<close>; the beat at 6.4 is then
  matched with confidence 1, where a grid advanced by \<open>+= averageMeasureDuration\<close> would
  give it 0.8.
\<close>

theorem measureWalk_grid_counterexample:
  "detectMeasures gridBeats = fst (measureWalk 2 120 ([], time (gridBeats ! 0)) gridBeats)
   \<and> length (fst (measureWalk 2 120 ([], time (gridBeats ! 0)) (take 3 gridBeats))) = 3
   \<and> snd (measureWalk 2 120 ([], time (gridBeats ! 0)) (take 3 gridBeats)) = 6.4
   \<and> snd (measureWalk 2 120 ([], time (gridBeats ! 0)) (take 3 gridBeats))
        \<noteq> time (gridBeats ! 0) + 3 * 2
   \<and> map confidence (detectMeasures gridBeats) = [1, 1, 0.8, 1, 0.8, 1, 0.8, 1]"
  by code_simp

end
